theory Spec2Isabelle
  imports Main "HOL-Library.Product_Lexorder" "HOL-Library.List_Lexorder" "HOL-Library.Multiset"
begin

section \<open>Python strings\<close>

text \<open>
  A Python \<open>str\<close> is a sequence of Unicode code points, so a string is a list of
  code points (natural numbers); its length, its comparison and its equality are those
  of the list. ASCII text is written through \<open>ascii\<close>, any other character by its
  code point.
\<close>

type_synonym codepoint = nat
type_synonym pystr = "codepoint list"

definition ascii :: "string \<Rightarrow> pystr" where
  "ascii s = map of_char s"

definition LF :: codepoint where "LF = 10"          \<comment> \<open>line feed, the one character \<open>.\<close> does not match\<close>
definition SP :: codepoint where "SP = 32"          \<comment> \<open>space\<close>
definition STAR :: codepoint where "STAR = 42"      \<comment> \<open>\<open>*\<close>\<close>
definition LBRACK :: codepoint where "LBRACK = 91"  \<comment> \<open>\<open>[\<close>\<close>
definition RBRACK :: codepoint where "RBRACK = 93"  \<comment> \<open>\<open>]\<close>\<close>
definition NBSP :: codepoint where "NBSP = 160"     \<comment> \<open>U+00A0, written \<open>\xa0\<close> in the source\<close>
definition DAGGER :: codepoint where "DAGGER = 8224"    \<comment> \<open>U+2020\<close>
definition DDAGGER :: codepoint where "DDAGGER = 8225"  \<comment> \<open>U+2021\<close>

text \<open>
  The characters that \<open>\s\<close> matches in a \<open>str\<close> pattern and that
  \<open>str.strip()\<close> removes: Python's Unicode whitespace.
\<close>

definition is_space :: "codepoint \<Rightarrow> bool" where
  "is_space c \<longleftrightarrow>
     (9 \<le> c \<and> c \<le> 13) \<or> (28 \<le> c \<and> c \<le> 32) \<or> c = 133 \<or> c = 160 \<or> c = 5760 \<or>
     (8192 \<le> c \<and> c \<le> 8202) \<or> c = 8232 \<or> c = 8233 \<or> c = 8239 \<or> c = 8287 \<or> c = 12288"

definition is_digit :: "codepoint \<Rightarrow> bool" where   \<comment> \<open>the class \<open>[0-9]\<close>\<close>
  "is_digit c \<longleftrightarrow> 48 \<le> c \<and> c \<le> 57"

definition is_upper :: "codepoint \<Rightarrow> bool" where   \<comment> \<open>the class \<open>[A-Z]\<close>\<close>
  "is_upper c \<longleftrightarrow> 65 \<le> c \<and> c \<le> 90"

definition is_lower :: "codepoint \<Rightarrow> bool" where   \<comment> \<open>the class \<open>[a-z]\<close>\<close>
  "is_lower c \<longleftrightarrow> 97 \<le> c \<and> c \<le> 122"

definition is_key_char :: "codepoint \<Rightarrow> bool" where   \<comment> \<open>the class \<open>[a-zA-Z0-9 ]\<close>\<close>
  "is_key_char c \<longleftrightarrow> is_lower c \<or> is_upper c \<or> is_digit c \<or> c = SP"

text \<open>
  \<open>str.lower()\<close> on the letters \<open>A\<close> to \<open>Z\<close>. The source lowers a name key after
  every character outside \<open>[a-zA-Z0-9 ]\<close> is gone, a country label to compare its
  first letters with \<open>total\<close>, and an ISO code; other characters are left as they are.
\<close>

definition lower_char :: "codepoint \<Rightarrow> codepoint" where
  "lower_char c = (if is_upper c then c + 32 else c)"

definition lower :: "pystr \<Rightarrow> pystr" where
  "lower s = map lower_char s"

definition strip :: "pystr \<Rightarrow> pystr" where
  "strip s = rev (dropWhile is_space (rev (dropWhile is_space s)))"

definition startswith :: "pystr \<Rightarrow> pystr \<Rightarrow> bool" where
  "startswith s p \<longleftrightarrow> take (length p) s = p"

text \<open>Truthiness of a value that is \<open>None\<close> or a string: \<open>if v\<close>.\<close>

definition truthy :: "pystr option \<Rightarrow> bool" where
  "truthy v \<longleftrightarrow> (case v of None \<Rightarrow> False | Some s \<Rightarrow> s \<noteq> [])"

section \<open>Text normalisation: \<open>normalize_text\<close>\<close>

text \<open>
  \<open>re.sub(r"\[.*?\]", "", text)\<close>. At a \<open>[\<close> the lazy \<open>.*?\<close> runs to the first
  \<open>]\<close> that follows with no line feed before it (\<open>.\<close> matches every character but
  the line feed); \<open>find_close\<close> returns the text after that \<open>]\<close>. When there is
  none the \<open>[\<close> stays and the scan goes on behind it.
\<close>

fun find_close :: "pystr \<Rightarrow> pystr option" where
  "find_close [] = None"
| "find_close (c # cs) =
     (if c = RBRACK then Some cs else if c = LF then None else find_close cs)"

function sub_refs :: "pystr \<Rightarrow> pystr" where
  "sub_refs [] = []"
| "sub_refs (c # cs) =
     (if c = LBRACK then
        (case find_close cs of
           Some rest \<Rightarrow> sub_refs rest
         | None \<Rightarrow> c # sub_refs cs)
      else c # sub_refs cs)"
  by pat_completeness auto
termination
proof (relation "measure length")
  show "wf (measure length)" by simp
next
  fix c :: codepoint and cs rest :: pystr
  assume "find_close cs = Some rest"
  then have "length rest < length cs"
    by (induction cs) (auto split: if_splits)
  then show "(rest, c # cs) \<in> measure length" by simp
qed simp_all

definition replace_nbsp :: "pystr \<Rightarrow> pystr" where   \<comment> \<open>\<open>text.replace("\xa0", " ")\<close>\<close>
  "replace_nbsp s = map (\<lambda>c. if c = NBSP then SP else c) s"

definition is_footnote_glyph :: "codepoint \<Rightarrow> bool" where
  "is_footnote_glyph c \<longleftrightarrow> c = DAGGER \<or> c = DDAGGER \<or> c = STAR"

definition remove_glyphs :: "pystr \<Rightarrow> pystr" where   \<comment> \<open>the three \<open>replace(..., "")\<close>\<close>
  "remove_glyphs s = filter (\<lambda>c. \<not> is_footnote_glyph c) s"

text \<open>
  \<open>re.sub(r"\s+", " ", text)\<close>: every maximal run of whitespace becomes one space.
  The flag says that the previous character belonged to the run being replaced.
\<close>

fun sub_spaces :: "bool \<Rightarrow> pystr \<Rightarrow> pystr" where
  "sub_spaces in_run [] = []"
| "sub_spaces in_run (c # cs) =
     (if is_space c then (if in_run then sub_spaces True cs else SP # sub_spaces True cs)
      else c # sub_spaces False cs)"

definition normalize_text :: "pystr option \<Rightarrow> pystr" where
  "normalize_text v =
     (case v of
        None \<Rightarrow> []
      | Some text \<Rightarrow> strip (sub_spaces False (remove_glyphs (replace_nbsp (sub_refs text)))))"

section \<open>Name keys: \<open>name_key\<close>\<close>

definition Turkiye :: pystr where   \<comment> \<open>with U+00FC\<close>
  "Turkiye = ascii ''T'' @ [252] @ ascii ''rkiye''"

definition Cote_dIvoire :: pystr where   \<comment> \<open>with U+00F4\<close>
  "Cote_dIvoire = ascii ''C'' @ [244] @ ascii ''te d'' @ [39] @ ascii ''Ivoire''"

definition Curacao :: pystr where   \<comment> \<open>with U+00E7\<close>
  "Curacao = ascii ''Cura'' @ [231] @ ascii ''ao''"

definition NAME_OVERRIDES :: "(pystr \<times> pystr) list" where
  "NAME_OVERRIDES =
     [(ascii ''Czechia'', ascii ''Czech Republic''),
      (Turkiye, ascii ''Turkey''),
      (ascii ''United States'', ascii ''United States of America''),
      (ascii ''United States of America'', ascii ''United States of America''),
      (ascii ''Great Britain'', ascii ''Great Britain''),
      (ascii ''Russia'', ascii ''Russian Federation''),
      (ascii ''Korea'', ascii ''South Korea''),
      (ascii ''Korea, South'', ascii ''South Korea''),
      (ascii ''Korea, North'', ascii ''North Korea''),
      (ascii ''People'' @ [39] @ ascii ''s Republic of China'', ascii ''China''),
      (ascii ''Hong Kong'', ascii ''Hong Kong, China''),
      (Cote_dIvoire, ascii ''Cote d'' @ [39] @ ascii ''Ivoire''),
      (Curacao, ascii ''Curacao'')]"

definition name_override :: "pystr \<Rightarrow> pystr" where   \<comment> \<open>\<open>NAME_OVERRIDES.get(text, text)\<close>\<close>
  "name_override text = (case map_of NAME_OVERRIDES text of None \<Rightarrow> text | Some name \<Rightarrow> name)"

text \<open>
  The Unicode character database behind \<open>unicodedata\<close> is not part of the repository;
  the functions that read it take it as a parameter: the full compatibility
  decomposition of each character and its canonical combining class.
  \<open>unicodedata.normalize("NFKD", text)\<close> replaces every character by its decomposition
  and then reorders runs of characters of non-zero combining class among themselves;
  the next line of \<open>name_key\<close> deletes exactly those characters, so the two lines
  together keep, in order, the decomposed characters of combining class zero.
\<close>

record ucd =
  decomposition :: "codepoint \<Rightarrow> pystr"
  combining :: "codepoint \<Rightarrow> nat"

definition strip_marks :: "ucd \<Rightarrow> pystr \<Rightarrow> pystr" where
  "strip_marks u text = filter (\<lambda>c. combining u c = 0) (concat (map (decomposition u) text))"

definition name_key :: "ucd \<Rightarrow> pystr option \<Rightarrow> pystr" where
  "name_key u v =
     (let text = normalize_text v;
          text = name_override text;
          text = strip_marks u text
      in strip (lower (filter is_key_char text)))"

text \<open>
  The entries of the database for ASCII and for the letters of the Latin-1 Supplement,
  which cover the override tables and the examples: an ASCII character decomposes to
  itself, an accented Latin-1 letter to its base letter and one combining mark
  (U+0300 grave, U+0301 acute, U+0302 circumflex, U+0303 tilde, U+0308 diaeresis,
  U+030A ring, all of class 230; U+0327 cedilla, of class 202).
\<close>

definition latin1_letters :: "(codepoint \<times> pystr) list" where
  "latin1_letters =
     [(192, [65, 768]), (193, [65, 769]), (194, [65, 770]), (195, [65, 771]), (196, [65, 776]),
      (197, [65, 778]), (199, [67, 807]), (200, [69, 768]), (201, [69, 769]), (202, [69, 770]),
      (203, [69, 776]), (204, [73, 768]), (205, [73, 769]), (206, [73, 770]), (207, [73, 776]),
      (209, [78, 771]), (210, [79, 768]), (211, [79, 769]), (212, [79, 770]), (213, [79, 771]),
      (214, [79, 776]), (217, [85, 768]), (218, [85, 769]), (219, [85, 770]), (220, [85, 776]),
      (221, [89, 769]),
      (224, [97, 768]), (225, [97, 769]), (226, [97, 770]), (227, [97, 771]), (228, [97, 776]),
      (229, [97, 778]), (231, [99, 807]), (232, [101, 768]), (233, [101, 769]), (234, [101, 770]),
      (235, [101, 776]), (236, [105, 768]), (237, [105, 769]), (238, [105, 770]), (239, [105, 776]),
      (241, [110, 771]), (242, [111, 768]), (243, [111, 769]), (244, [111, 770]), (245, [111, 771]),
      (246, [111, 776]), (249, [117, 768]), (250, [117, 769]), (251, [117, 770]), (252, [117, 776]),
      (253, [121, 769]), (255, [121, 776])]"

definition latin1_ucd :: ucd where
  "latin1_ucd =
     \<lparr> decomposition = (\<lambda>c. case map_of latin1_letters c of None \<Rightarrow> [c] | Some d \<Rightarrow> d),
       combining = (\<lambda>c. if c \<in> set [768, 769, 770, 771, 776, 778] then 230
                         else if c = 807 then 202 else 0) \<rparr>"

section \<open>Numeric cells: \<open>to_int\<close>\<close>

text \<open>
  The exceptions of a run: a failed request, the \<open>ValueError\<close> of \<open>int\<close>, and the
  \<open>RuntimeError\<close>s the source raises, with their message.
\<close>

datatype error = RequestError | ValueError | RuntimeError pystr

text \<open>
  \<open>int(text)\<close> on a non-empty string of the digits \<open>0\<close> to \<open>9\<close>. The value is the
  decimal value of the digits, an unbounded integer. CPython refuses to convert a
  string of more than \<open>sys.int_info.default_max_str_digits\<close> = 4300 digits (leading
  zeros counted) and raises \<open>ValueError\<close>; the source does not change that limit.
\<close>

definition int_of_digits :: "pystr \<Rightarrow> int" where
  "int_of_digits ds = foldl (\<lambda>acc d. 10 * acc + (int d - 48)) 0 ds"

definition MAX_STR_DIGITS :: nat where
  "MAX_STR_DIGITS = 4300"

definition int_of_str :: "pystr \<Rightarrow> error + int" where
  "int_of_str ds = (if MAX_STR_DIGITS < length ds then Inl ValueError else Inr (int_of_digits ds))"

definition to_int :: "pystr option \<Rightarrow> error + int" where
  "to_int v =
     (let text = normalize_text v;
          text = filter is_digit text
      in if text \<noteq> [] then int_of_str text else Inr 0)"

section \<open>Medal rows\<close>

text \<open>
  A row of the result is the dictionary the source builds: \<open>rank\<close> is \<open>None\<close> when
  the table has no rank column and in the aggregate row until the ranking pass,
  \<open>iso2\<close> and \<open>flag_url\<close> are \<open>None\<close> when no ISO code was found, and the key
  \<open>is_eu\<close> is absent (\<open>None\<close>) until \<open>add_eu_row\<close> sets it.
\<close>

record medal_row =
  rank :: "int option"
  country :: pystr
  noc :: pystr
  iso2 :: "pystr option"
  flag_url :: "pystr option"
  gold :: int
  silver :: int
  bronze :: int
  total :: int
  is_eu :: "bool option"

definition ISO2_OVERRIDES :: "(pystr \<times> pystr) list" where
  "ISO2_OVERRIDES =
     [(ascii ''EU27'', ascii ''EU''),
      (ascii ''EU'', ascii ''EU''),
      (ascii ''Great Britain'', ascii ''GB''),
      (ascii ''United States of America'', ascii ''US''),
      (ascii ''United States'', ascii ''US''),
      (ascii ''Russia'', ascii ''RU''),
      (ascii ''Russian Federation'', ascii ''RU''),
      (ascii ''Czech Republic'', ascii ''CZ''),
      (ascii ''Czechia'', ascii ''CZ''),
      (Turkiye, ascii ''TR''),
      (ascii ''Turkey'', ascii ''TR''),
      (ascii ''South Korea'', ascii ''KR''),
      (ascii ''North Korea'', ascii ''KP''),
      (ascii ''Korea'', ascii ''KR''),
      (ascii ''China'', ascii ''CN''),
      (ascii ''People'' @ [39] @ ascii ''s Republic of China'', ascii ''CN''),
      (ascii ''Hong Kong, China'', ascii ''HK''),
      (ascii ''Hong Kong'', ascii ''HK''),
      (ascii ''Cote d'' @ [39] @ ascii ''Ivoire'', ascii ''CI''),
      (Cote_dIvoire, ascii ''CI''),
      (ascii ''Viet Nam'', ascii ''VN''),
      (ascii ''Vietnam'', ascii ''VN''),
      (ascii ''Iran'', ascii ''IR''),
      (ascii ''Iran, Islamic Republic of'', ascii ''IR''),
      (ascii ''Moldova'', ascii ''MD''),
      (ascii ''Bolivia'', ascii ''BO''),
      (ascii ''Venezuela'', ascii ''VE''),
      (ascii ''Syria'', ascii ''SY'')]"

text \<open>
  \<open>pycountry\<close> is an external database: \<open>fuzzy name\<close> stands for
  \<open>pycountry.countries.search_fuzzy(name)[0].alpha_2\<close>, and is \<open>None\<close> when that
  expression raises.
\<close>

definition iso2_from_country :: "(pystr \<Rightarrow> pystr option) \<Rightarrow> pystr \<Rightarrow> pystr option" where
  "iso2_from_country fuzzy country_name =
     (if country_name = [] then None
      else case map_of ISO2_OVERRIDES country_name of
             Some code \<Rightarrow> Some code
           | None \<Rightarrow> fuzzy country_name)"

definition flag_template :: "pystr \<Rightarrow> pystr" where
  "flag_template code = ascii ''https://flagcdn.com/w40/'' @ code @ ascii ''.png''"

section \<open>Row extraction: the loop of \<open>parse_medal_table\<close>\<close>

text \<open>
  The table is the data frame \<open>pick_medal_table\<close> returns. A cell of the frame is
  empty, which pandas holds as the float \<open>NaN\<close>, or holds a value, given by its text
  \<open>str(value)\<close>; the text of \<open>NaN\<close> is \<open>nan\<close>. A row maps the column labels to
  cells. \<open>row_get\<close> is \<open>row.get(col)\<close> as \<open>normalize_text\<close> sees it: \<open>None\<close> for a
  label that is \<open>None\<close> or not a column, the text of the cell otherwise. The labels
  the source computes before the loop (\<open>rank_col\<close>, \<open>nation_col\<close>, \<open>noc_col\<close>) and
  inside it (\<open>find_col("gold")\<close> and the other three) are given with the table; each
  may be \<open>None\<close>.
\<close>

datatype cell = NaN | Value pystr

definition cell_str :: "cell \<Rightarrow> pystr" where
  "cell_str c = (case c of NaN \<Rightarrow> ascii ''nan'' | Value text \<Rightarrow> text)"

type_synonym table_row = "pystr \<rightharpoonup> cell"

record columns =
  rank_col :: "pystr option"
  nation_col :: "pystr option"
  noc_col :: "pystr option"
  gold_col :: "pystr option"
  silver_col :: "pystr option"
  bronze_col :: "pystr option"
  total_col :: "pystr option"

record frame =
  cols :: columns
  body :: "table_row list"

definition row_get :: "table_row \<Rightarrow> pystr option \<Rightarrow> pystr option" where
  "row_get row col = (case col of None \<Rightarrow> None | Some label \<Rightarrow> map_option cell_str (row label))"

text \<open>\<open>normalize_text(row.get(col)) if col else ""\<close>, for a label \<open>col\<close>.\<close>

definition col_text :: "table_row \<Rightarrow> pystr option \<Rightarrow> pystr" where
  "col_text row col = (if truthy col then normalize_text (row_get row col) else [])"

text \<open>
  One pass of the loop body: the row is skipped (the first \<open>continue\<close>), its label is
  appended to \<open>unmapped\<close> (the second \<open>continue\<close>), a dictionary is appended to
  \<open>rows\<close>, or one of the calls of \<open>to_int\<close> raises. The four medal cells are
  converted before the NOC is looked up, the rank cell when the dictionary is built.
  \<open>parse_row\<close> is the body up to the conversion of the medal cells, \<open>build_row\<close> the
  rest of it.
\<close>

datatype row_result = Skipped | Unmapped pystr | Parsed medal_row | Raises error

definition build_row ::
  "ucd \<Rightarrow> (pystr \<Rightarrow> pystr option) \<Rightarrow> columns \<Rightarrow> (pystr \<rightharpoonup> pystr) \<Rightarrow> (pystr \<rightharpoonup> pystr)
     \<Rightarrow> table_row \<Rightarrow> pystr \<Rightarrow> pystr \<Rightarrow> int \<Rightarrow> int \<Rightarrow> int \<Rightarrow> int \<Rightarrow> row_result" where
  \<comment> \<open>the loop body from \<open>if total == 0\<close> on, with the values of \<open>country\<close>, \<open>noc_raw\<close> and the four counts\<close>
  "build_row u fuzzy cs name_to_noc noc_to_name row label noc_raw g s b t =
     (let t = (if t = 0 then g + s + b else t);
          noc = (if noc_raw = [] \<or> length noc_raw \<noteq> 3
                 then name_to_noc (name_key u (Some label)) else Some noc_raw)
      in case noc of
           None \<Rightarrow> Unmapped label
         | Some code \<Rightarrow>
             if code = [] then Unmapped label
             else
               let country_name = (case noc_to_name code of None \<Rightarrow> label | Some name \<Rightarrow> name);
                   iso2 = iso2_from_country fuzzy country_name;
                   flag_url = (if truthy iso2 then map_option (\<lambda>c. flag_template (lower c)) iso2
                               else None)
               in case (if truthy (rank_col cs) then map_sum id Some (to_int (row_get row (rank_col cs)))
                        else Inr None) of
                    Inl e \<Rightarrow> Raises e
                  | Inr rank_value \<Rightarrow>
                      Parsed
                        \<lparr> rank = rank_value,
                          country = country_name,
                          noc = code,
                          iso2 = iso2,
                          flag_url = flag_url,
                          gold = g,
                          silver = s,
                          bronze = b,
                          total = t,
                          is_eu = None \<rparr>)"

definition parse_row ::
  "ucd \<Rightarrow> (pystr \<Rightarrow> pystr option) \<Rightarrow> columns \<Rightarrow> (pystr \<rightharpoonup> pystr) \<Rightarrow> (pystr \<rightharpoonup> pystr)
     \<Rightarrow> table_row \<Rightarrow> row_result" where
  "parse_row u fuzzy cs name_to_noc noc_to_name row =
     (let country_raw = col_text row (nation_col cs);
          noc_raw = col_text row (noc_col cs);
          country = name_override country_raw
      in if country = [] \<or> startswith (lower country) (ascii ''total'') then Skipped
         else
           case to_int (row_get row (gold_col cs)) of Inl e \<Rightarrow> Raises e | Inr g \<Rightarrow>
           case to_int (row_get row (silver_col cs)) of Inl e \<Rightarrow> Raises e | Inr s \<Rightarrow>
           case to_int (row_get row (bronze_col cs)) of Inl e \<Rightarrow> Raises e | Inr b \<Rightarrow>
           case to_int (row_get row (total_col cs)) of Inl e \<Rightarrow> Raises e | Inr t \<Rightarrow>
           build_row u fuzzy cs name_to_noc noc_to_name row country noc_raw g s b t)"

fun parse_loop ::
  "(table_row \<Rightarrow> row_result) \<Rightarrow> table_row list \<Rightarrow> medal_row list \<Rightarrow> pystr list
     \<Rightarrow> error + medal_row list \<times> pystr list" where
  "parse_loop f [] rows unmapped = Inr (rows, unmapped)"
| "parse_loop f (row # rest) rows unmapped =
     (case f row of
        Skipped \<Rightarrow> parse_loop f rest rows unmapped
      | Unmapped label \<Rightarrow> parse_loop f rest rows (unmapped @ [label])
      | Parsed r \<Rightarrow> parse_loop f rest (rows @ [r]) unmapped
      | Raises e \<Rightarrow> Inl e)"

text \<open>\<open>sorted(set(unmapped))\<close>: the distinct labels in the order of their code points.\<close>

definition parse_medal_table ::
  "ucd \<Rightarrow> (pystr \<Rightarrow> pystr option) \<Rightarrow> frame \<Rightarrow> (pystr \<rightharpoonup> pystr) \<Rightarrow> (pystr \<rightharpoonup> pystr)
     \<Rightarrow> error + medal_row list \<times> pystr list" where
  "parse_medal_table u fuzzy df name_to_noc noc_to_name =
     (case parse_loop (parse_row u fuzzy (cols df) name_to_noc noc_to_name) (body df) [] [] of
        Inl e \<Rightarrow> Inl e
      | Inr (rows, unmapped) \<Rightarrow> Inr (rows, sort (remdups unmapped)))"

section \<open>Ranking: \<open>compute_rank\<close>\<close>

definition sort_tuple :: "medal_row \<Rightarrow> int \<times> int \<times> int \<times> int \<times> pystr" where
  "sort_tuple r = (- gold r, - silver r, - bronze r, - total r, country r)"

definition medal_tuple :: "medal_row \<Rightarrow> int \<times> int \<times> int \<times> int" where
  "medal_tuple r = (gold r, silver r, bronze r, total r)"

text \<open>
  The loop over \<open>enumerate(rows_sorted, start=1)\<close>, with its variables \<open>idx\<close>, \<open>rank\<close>
  and \<open>prev_key\<close>.
\<close>

fun rank_loop ::
  "int \<Rightarrow> int \<Rightarrow> (int \<times> int \<times> int \<times> int) option \<Rightarrow> medal_row list \<Rightarrow> medal_row list" where
  "rank_loop idx rnk prev_key [] = []"
| "rank_loop idx rnk prev_key (row # rest) =
     (let key = medal_tuple row;
          changed = (Some key \<noteq> prev_key);
          rnk = (if changed then idx else rnk);
          prev_key = (if changed then Some key else prev_key)
      in row\<lparr>rank := Some rnk\<rparr> # rank_loop (idx + 1) rnk prev_key rest)"

text \<open>\<open>sorted\<close> is stable, as is \<open>sort_key\<close>.\<close>

definition compute_rank :: "medal_row list \<Rightarrow> medal_row list" where
  "compute_rank rows = rank_loop 1 0 None (sort_key sort_tuple rows)"

section \<open>The aggregate row: \<open>add_eu_row\<close>\<close>

text \<open>
  An entry of the member list of \<open>eu_members.json\<close>: \<open>m.get("noc")\<close> and the truth
  value of \<open>m.get("eu_member")\<close>. The file is absent, or holds an object whose
  \<open>members\<close> key is absent or a list of entries.
\<close>

record member =
  member_noc :: "pystr option"
  eu_member :: bool

type_synonym members_file = "member list option option"

definition load_eu_members :: "members_file \<Rightarrow> member list" where
  "load_eu_members file =
     (let data = (case file of None \<Rightarrow> Some [] | Some d \<Rightarrow> d);
          members = (case data of None \<Rightarrow> [] | Some ms \<Rightarrow> ms)
      in filter eu_member members)"

definition eu_nocs_of :: "member list \<Rightarrow> pystr set" where
  "eu_nocs_of eu_members =
     set (List.map_filter (\<lambda>m. if truthy (member_noc m) then member_noc m else None) eu_members)"

definition eu_row :: "int \<Rightarrow> int \<Rightarrow> int \<Rightarrow> medal_row" where
  "eu_row g s b =
     \<lparr> rank = None,
       country = ascii ''European Union'',
       noc = ascii ''EU27'',
       iso2 = Some (ascii ''EU''),
       flag_url = Some (ascii ''https://flagcdn.com/w40/eu.png''),
       gold = g,
       silver = s,
       bronze = b,
       total = g + s + b,
       is_eu = Some True \<rparr>"

text \<open>The list \<open>rows\<close> is changed in place; the model returns it.\<close>

definition add_eu_row :: "medal_row list \<Rightarrow> member list \<Rightarrow> medal_row list" where
  "add_eu_row rows eu_members =
     (let eu_nocs = eu_nocs_of eu_members;
          g = sum_list (map gold (filter (\<lambda>r. noc r \<in> eu_nocs) rows));
          s = sum_list (map silver (filter (\<lambda>r. noc r \<in> eu_nocs) rows));
          b = sum_list (map bronze (filter (\<lambda>r. noc r \<in> eu_nocs) rows))
      in map (\<lambda>r. r\<lparr>is_eu := Some (noc r \<in> eu_nocs)\<rparr>) rows @ [eu_row g s b])"

section \<open>The run: \<open>main\<close>\<close>

record meta =
  last_etag :: "pystr option"
  last_modified :: "pystr option"
  last_revision_id :: "pystr option"
  last_update_utc :: "pystr option"
  source_url :: "pystr option"
  unmapped_countries :: "pystr list"

record headers =
  ETag :: "pystr option"
  Last_Modified :: "pystr option"

record payload =
  p_last_updated_utc :: pystr
  p_source_url :: pystr
  p_source_revision_id :: "pystr option"
  p_source_retrieved_at_utc :: "pystr option"
  p_rows :: "medal_row list"

text \<open>
  The three files the run may write, each absent or holding what was last saved:
  \<open>medals_eu.csv\<close> (its rows), \<open>medals_eu.json\<close> and \<open>medals_meta.json\<close>.
\<close>

record files =
  medals_csv :: "medal_row list option"
  medals_json :: "payload option"
  meta_json :: "meta option"

datatype outcome = Returned int | Raised error

text \<open>
  What the run reads from outside: the command line, the files, the answer of
  \<open>fetch_url(MEDAL_URL)\<close> (an exception, or the response headers and the page, the page
  given by what \<open>pick_medal_table\<close> makes of it: no table, or a frame), the result of
  \<open>load_ioc_codes\<close> (an exception, or \<open>noc_to_name\<close> and \<open>name_to_noc\<close>), the member
  file, the two readings of the clock, and the two databases.
\<close>

record world =
  force :: bool
  disk :: files
  fetched :: "error + (headers \<times> frame option)"
  ioc_codes :: "error + ((pystr \<rightharpoonup> pystr) \<times> (pystr \<rightharpoonup> pystr))"
  eu_members_json :: members_file
  now_update :: pystr
  now_output :: pystr
  unicode :: ucd
  pycountry :: "pystr \<Rightarrow> pystr option"

record run =
  outcome :: outcome
  printed :: "pystr list"
  disk_after :: files

definition MEDAL_URL :: pystr where
  "MEDAL_URL = ascii ''https://en.wikipedia.org/w/rest.php/v1/page/2026_Winter_Olympics_medal_table/html''"

definition default_meta :: meta where
  "default_meta =
     \<lparr> last_etag = None, last_modified = None, last_revision_id = None, last_update_utc = None,
       source_url = Some MEDAL_URL, unmapped_countries = [] \<rparr>"

definition join_comma :: "pystr list \<Rightarrow> pystr" where   \<comment> \<open>\<open>', '.join(xs)\<close>\<close>
  "join_comma xs = (case xs of [] \<Rightarrow> [] | y # ys \<Rightarrow> y @ concat (map (\<lambda>z. ascii '', '' @ z) ys))"

definition write_outputs :: "world \<Rightarrow> files \<Rightarrow> medal_row list \<Rightarrow> meta \<Rightarrow> pystr list \<Rightarrow> files" where
  "write_outputs w fs rows m unmapped =
     (let rows = compute_rank rows;
          fs = fs\<lparr>medals_csv := Some rows\<rparr>;
          medals_payload =
            \<lparr> p_last_updated_utc = now_output w,
              p_source_url = MEDAL_URL,
              p_source_revision_id = last_revision_id m,
              p_source_retrieved_at_utc = last_update_utc m,
              p_rows = rows \<rparr>;
          fs = fs\<lparr>medals_json := Some medals_payload\<rparr>;
          m = m\<lparr>unmapped_countries := unmapped\<rparr>
      in fs\<lparr>meta_json := Some m\<rparr>)"

text \<open>
  The part of \<open>main\<close> after the change check: from \<open>meta["last_etag"] = etag\<close> on.
\<close>

definition update :: "world \<Rightarrow> meta \<Rightarrow> headers \<Rightarrow> frame option \<Rightarrow> run" where
  "update w m hs html =
     (let etag = ETag hs;
          m = m\<lparr>last_etag := etag,
                 last_modified := Last_Modified hs,
                 last_revision_id := (if truthy etag then etag else last_revision_id m),
                 last_update_utc := Some (now_update w),
                 source_url := Some MEDAL_URL\<rparr>
      in case ioc_codes w of
           Inl e \<Rightarrow> \<lparr>outcome = Raised e, printed = [], disk_after = disk w\<rparr>
         | Inr (noc_to_name, name_to_noc) \<Rightarrow>
             (case html of
                None \<Rightarrow>
                  \<lparr>outcome = Raised (RuntimeError (ascii ''Could not find medal table with required columns.'')),
                   printed = [], disk_after = disk w\<rparr>
              | Some df \<Rightarrow>
                  (case parse_medal_table (unicode w) (pycountry w) df name_to_noc noc_to_name of
                     Inl e \<Rightarrow> \<lparr>outcome = Raised e, printed = [], disk_after = disk w\<rparr>
                   | Inr (rows, unmapped) \<Rightarrow>
                       if unmapped \<noteq> [] then
                         \<lparr>outcome = Raised (RuntimeError (ascii ''Unmapped countries: '' @ join_comma unmapped)),
                          printed = [],
                          disk_after = (disk w)\<lparr>meta_json := Some (m\<lparr>unmapped_countries := unmapped\<rparr>)\<rparr>\<rparr>
                       else
                         let eu_members = load_eu_members (eu_members_json w);
                             rows = add_eu_row rows eu_members
                         in \<lparr>outcome = Returned 0,
                             printed = [ascii ''Medal table updated.''],
                             disk_after = write_outputs w (disk w) rows m unmapped\<rparr>)))"

definition load_meta :: "files \<Rightarrow> meta" where   \<comment> \<open>\<open>load_json(META_JSON, {...})\<close>\<close>
  "load_meta fs = (case meta_json fs of None \<Rightarrow> default_meta | Some stored \<Rightarrow> stored)"

definition main :: "world \<Rightarrow> run" where
  "main w =
     (let m = load_meta (disk w)
      in case fetched w of
           Inl e \<Rightarrow> \<lparr>outcome = Raised e, printed = [], disk_after = disk w\<rparr>
         | Inr (hs, html) \<Rightarrow>
             let etag = ETag hs;
                 last_mod = Last_Modified hs
             in if \<not> force w \<and> truthy etag \<and> last_etag m = etag then
                  \<lparr>outcome = Returned 0, printed = [ascii ''No changes detected (ETag).''],
                   disk_after = disk w\<rparr>
                else if \<not> force w \<and> truthy last_mod \<and> last_modified m = last_mod then
                  \<lparr>outcome = Returned 0, printed = [ascii ''No changes detected (Last-Modified).''],
                   disk_after = disk w\<rparr>
                else update w m hs html)"


text \<open>
  \<open>etag_check.py\<close>: the value of \<open>changed\<close> that its \<open>main\<close> prints, from the stored
  metadata (\<open>{}\<close> when the file is absent) and the response headers.
\<close>

definition etag_check_changed :: "meta option \<Rightarrow> headers \<Rightarrow> bool" where
  "etag_check_changed stored hs =
     (let etag = ETag hs;
          last_mod = Last_Modified hs
      in if truthy etag \<and> Option.bind stored last_etag = etag then False
         else if truthy last_mod \<and> Option.bind stored last_modified = last_mod then False
         else True)"

section \<open>Example data\<close>

text \<open>
  A small table used to run the definitions: a nation column, a column of NOC codes and
  the four medal columns, with an empty registry and no ISO database.
\<close>

definition ex_cols :: columns where
  "ex_cols =
     \<lparr> rank_col = None, nation_col = Some (ascii ''Nation''), noc_col = Some (ascii ''NOC''),
       gold_col = Some (ascii ''Gold''), silver_col = Some (ascii ''Silver''),
       bronze_col = Some (ascii ''Bronze''), total_col = Some (ascii ''Total'') \<rparr>"

definition str_cell :: "string \<Rightarrow> cell" where
  "str_cell s = Value (ascii s)"

definition ex_row :: "cell \<Rightarrow> cell \<Rightarrow> cell \<Rightarrow> cell \<Rightarrow> cell \<Rightarrow> cell \<Rightarrow> table_row" where
  "ex_row nation code g s b t =
     map_of [(ascii ''Nation'', nation), (ascii ''NOC'', code), (ascii ''Gold'', g),
             (ascii ''Silver'', s), (ascii ''Bronze'', b), (ascii ''Total'', t)]"

definition no_fuzzy :: "pystr \<Rightarrow> pystr option" where
  "no_fuzzy name = None"

definition ex_fuzzy :: "pystr \<Rightarrow> pystr option" where
  "ex_fuzzy name = (if name = ascii ''A'' then Some (ascii ''AQ'') else None)"

definition ex_parse :: "table_row \<Rightarrow> row_result" where
  "ex_parse row = parse_row latin1_ucd no_fuzzy ex_cols Map.empty Map.empty row"

definition ex_A :: table_row where   \<comment> \<open>a row with an NOC code and an empty total cell\<close>
  "ex_A = ex_row (str_cell ''A'') (str_cell ''AAA'') (str_cell ''1'') (str_cell ''1'') (str_cell ''0'') NaN"

definition ex_Totals :: table_row where   \<comment> \<open>the footer row\<close>
  "ex_Totals = ex_row (str_cell ''Totals'') NaN (str_cell ''1'') (str_cell ''1'') (str_cell ''0'') (str_cell ''2'')"


definition long_digits :: pystr where   \<comment> \<open>4301 times the digit \<open>1\<close>\<close>
  "long_digits = replicate (Suc MAX_STR_DIGITS) 49"

definition ex_table :: frame where
  "ex_table = \<lparr> cols = ex_cols, body = [ex_A, ex_Totals] \<rparr>"




text \<open>
  Rows as they leave the row loop, named by one string that is both country and NOC,
  and a member file that lists A and B as members and C as a non-member.
\<close>

definition ex_medals :: "string \<Rightarrow> int \<Rightarrow> int \<Rightarrow> int \<Rightarrow> int \<Rightarrow> medal_row" where
  "ex_medals name g s b t =
     \<lparr> rank = None, country = ascii name, noc = ascii name, iso2 = None, flag_url = None,
       gold = g, silver = s, bronze = b, total = t, is_eu = None \<rparr>"

definition ex_members_file :: members_file where
  "ex_members_file =
     Some (Some [\<lparr> member_noc = Some (ascii ''A''), eu_member = True \<rparr>,
                 \<lparr> member_noc = Some (ascii ''B''), eu_member = True \<rparr>,
                 \<lparr> member_noc = Some (ascii ''C''), eu_member = False \<rparr>])"

text \<open>
  A run on the example table: nothing stored yet, the page answered with an ETag, an
  empty registry, the member file above.
\<close>

definition ex_headers :: headers where
  "ex_headers = \<lparr> ETag = Some (ascii ''W/1''), Last_Modified = None \<rparr>"

definition ex_world :: world where
  "ex_world =
     \<lparr> force = False,
       disk = \<lparr> medals_csv = None, medals_json = None, meta_json = None \<rparr>,
       fetched = Inr (ex_headers, Some ex_table),
       ioc_codes = Inr (Map.empty, Map.empty),
       eu_members_json = ex_members_file,
       now_update = ascii ''t1'',
       now_output = ascii ''t2'',
       unicode = latin1_ucd,
       pycountry = no_fuzzy \<rparr>"

text \<open>
  The same run when the metadata of an earlier run holds the ETag of the answer, and
  the first run on the table with the unknown country.
\<close>

definition ex_meta :: meta where
  "ex_meta = default_meta\<lparr>last_etag := Some (ascii ''W/1'')\<rparr>"

definition ex_world_stored :: world where
  "ex_world_stored =
     ex_world\<lparr>disk := \<lparr> medals_csv = None, medals_json = None, meta_json = Some ex_meta \<rparr>\<rparr>"




section \<open>Cells that \<open>int\<close> converts\<close>

text \<open>
  \<open>digits_ok v\<close>: the digits left of the cell \<open>v\<close> are at most 4300, so \<open>to_int\<close>
  does not raise. \<open>row_digits_ok\<close>: this holds of the cells of a row that the loop
  converts.
\<close>

definition digits_ok :: "pystr option \<Rightarrow> bool" where
  "digits_ok v \<longleftrightarrow> length (filter is_digit (normalize_text v)) \<le> MAX_STR_DIGITS"


section \<open>Predicates on normalised text\<close>

text \<open>
  \<open>closed_ref s\<close>: some \<open>[\<close> of \<open>s\<close> has a \<open>]\<close> after it. \<open>spaced_ok s\<close>: the only
  whitespace of \<open>s\<close> is the space, and no space is followed by whitespace.
  \<open>trimmed s\<close>: \<open>s\<close> neither begins nor ends with whitespace.
\<close>

fun closed_ref :: "pystr \<Rightarrow> bool" where
  "closed_ref [] = False"
| "closed_ref (c # cs) = ((c = LBRACK \<and> RBRACK \<in> set cs) \<or> closed_ref cs)"

fun spaced_ok :: "pystr \<Rightarrow> bool" where
  "spaced_ok [] = True"
| "spaced_ok [c] = (is_space c \<longrightarrow> c = SP)"
| "spaced_ok (a # b # r) = ((is_space a \<longrightarrow> a = SP \<and> \<not> is_space b) \<and> spaced_ok (b # r))"

definition trimmed :: "pystr \<Rightarrow> bool" where
  "trimmed s \<longleftrightarrow> s = [] \<or> (\<not> is_space (hd s) \<and> \<not> is_space (last s))"

definition brackets :: "pystr \<Rightarrow> pystr" where
  "brackets s = filter (\<lambda>c. c = LBRACK \<or> c = RBRACK) s"

section \<open>Letters that differ in case or diacritics\<close>






section \<open>Facts about the normaliser\<close>

lemma find_close_length: "find_close cs = Some rest \<Longrightarrow> length rest < length cs"
  by (induction cs) (auto split: if_splits)

section \<open>Facts about numeric cells and the row loop\<close>

lemma int_of_digits_nonneg_aux:
  "\<forall>d\<in>set ds. is_digit d \<Longrightarrow> 0 \<le> acc \<Longrightarrow> 0 \<le> foldl (\<lambda>acc d. 10 * acc + (int d - 48)) acc ds"
  by (induction ds arbitrary: acc) (auto simp: is_digit_def)

lemma int_of_digits_nonneg: "\<forall>d\<in>set ds. is_digit d \<Longrightarrow> 0 \<le> int_of_digits ds"
  unfolding int_of_digits_def by (rule int_of_digits_nonneg_aux) simp_all

lemma to_int_cases:
  "to_int v =
     (if filter is_digit (normalize_text v) = [] then Inr 0
      else if MAX_STR_DIGITS < length (filter is_digit (normalize_text v)) then Inl ValueError
      else Inr (int_of_digits (filter is_digit (normalize_text v))))"
  by (simp add: to_int_def int_of_str_def Let_def)

lemma to_int_nonneg: "to_int v = Inr n \<Longrightarrow> 0 \<le> n"
  by (auto simp: to_int_cases int_of_digits_nonneg split: if_splits)

lemma to_int_no_digits: "filter is_digit (normalize_text v) = [] \<Longrightarrow> to_int v = Inr 0"
  by (simp add: to_int_cases)

lemma to_int_ok:
  "digits_ok v \<Longrightarrow>
     to_int v = Inr (if filter is_digit (normalize_text v) = [] then 0
                     else int_of_digits (filter is_digit (normalize_text v)))"
  by (simp add: to_int_cases digits_ok_def)

lemma to_int_raises: "to_int v = Inl e \<longleftrightarrow> e = ValueError \<and> \<not> digits_ok v"
  by (auto simp: to_int_cases digits_ok_def split: if_splits)

lemma map_sum_Some_iff:
  "map_sum id Some x = Inl e \<longleftrightarrow> x = Inl e"
  "map_sum id Some x = Inr k \<longleftrightarrow> (\<exists>n. x = Inr n \<and> k = Some n)"
  by (cases x; auto)+

lemma build_row_Parsed:
  assumes "build_row u fuzzy cs n2c c2n row label noc_raw g s b t = Parsed r"
  shows "gold r = g" "silver r = s" "bronze r = b" "total r = (if t = 0 then g + s + b else t)"
    "is_eu r = None" "iso2 r = iso2_from_country fuzzy (country r)"
    "flag_url r = (if truthy (iso2 r) then map_option (\<lambda>c. flag_template (lower c)) (iso2 r) else None)"
    "noc r \<noteq> []"
  using assms unfolding build_row_def Let_def
  by (auto split: option.splits if_splits sum.splits)

lemma build_row_Raises:
  assumes "build_row u fuzzy cs n2c c2n row label noc_raw g s b t = Raises e"
  shows "to_int (row_get row (rank_col cs)) = Inl e"
  using assms unfolding build_row_def Let_def
  by (simp split: option.splits if_splits sum.splits add: map_sum_Some_iff)


lemma parse_row_Parsed:
  assumes "parse_row u fuzzy cs n2c c2n row = Parsed r"
  shows "\<exists>g s b t. to_int (row_get row (gold_col cs)) = Inr g \<and>
           to_int (row_get row (silver_col cs)) = Inr s \<and>
           to_int (row_get row (bronze_col cs)) = Inr b \<and>
           to_int (row_get row (total_col cs)) = Inr t \<and>
           build_row u fuzzy cs n2c c2n row (name_override (col_text row (nation_col cs)))
             (col_text row (noc_col cs)) g s b t = Parsed r"
  using assms unfolding parse_row_def Let_def
  by (simp split: if_splits sum.splits)

lemma parse_row_fields:
  assumes "parse_row u fuzzy cs n2c c2n row = Parsed r"
  shows "to_int (row_get row (gold_col cs)) = Inr (gold r)"
    and "to_int (row_get row (silver_col cs)) = Inr (silver r)"
    and "to_int (row_get row (bronze_col cs)) = Inr (bronze r)"
    and "\<exists>t. to_int (row_get row (total_col cs)) = Inr t \<and>
             total r = (if t = 0 then gold r + silver r + bronze r else t)"
    and "is_eu r = None"
proof -
  from parse_row_Parsed [OF assms] obtain g s b t where c:
    "to_int (row_get row (gold_col cs)) = Inr g" "to_int (row_get row (silver_col cs)) = Inr s"
    "to_int (row_get row (bronze_col cs)) = Inr b" "to_int (row_get row (total_col cs)) = Inr t"
    and br: "build_row u fuzzy cs n2c c2n row (name_override (col_text row (nation_col cs)))
             (col_text row (noc_col cs)) g s b t = Parsed r"
    by blast
  note f = build_row_Parsed [OF br]
  show "to_int (row_get row (gold_col cs)) = Inr (gold r)" by (simp only: c f)
  show "to_int (row_get row (silver_col cs)) = Inr (silver r)" by (simp only: c f)
  show "to_int (row_get row (bronze_col cs)) = Inr (bronze r)" by (simp only: c f)
  show "\<exists>t. to_int (row_get row (total_col cs)) = Inr t \<and>
             total r = (if t = 0 then gold r + silver r + bronze r else t)"
    using c(4) f(1-4) by simp
  show "is_eu r = None" by (rule f(5))
qed

lemma parse_row_raises:
  assumes "parse_row u fuzzy cs n2c c2n row = Raises e"
  shows "e = ValueError"
proof -
  from assms have "to_int (row_get row (gold_col cs)) = Inl e \<or> to_int (row_get row (silver_col cs)) = Inl e \<or>
      to_int (row_get row (bronze_col cs)) = Inl e \<or> to_int (row_get row (total_col cs)) = Inl e \<or>
      to_int (row_get row (rank_col cs)) = Inl e"
    unfolding parse_row_def Let_def
    by (simp split: if_splits sum.splits add: build_row_Raises)
  then show ?thesis by (auto simp: to_int_raises)
qed


lemma set_map_filter_iff: "y \<in> set (List.map_filter g xs) \<longleftrightarrow> (\<exists>x\<in>set xs. g x = Some y)"
  by (induction xs) (auto split: option.splits)

lemma parsed_case_iff:
  "(case x of Parsed r \<Rightarrow> Some r | _ \<Rightarrow> None) = Some y \<longleftrightarrow> x = Parsed y"
  by (cases x) auto



lemma parse_loop_Inr:
  "parse_loop f tab rows unmapped = Inr (R, U) \<Longrightarrow>
     R = rows @ List.map_filter (\<lambda>row. case f row of Parsed r \<Rightarrow> Some r | _ \<Rightarrow> None) tab \<and>
     U = unmapped @ List.map_filter (\<lambda>row. case f row of Unmapped l \<Rightarrow> Some l | _ \<Rightarrow> None) tab \<and>
     (\<forall>row\<in>set tab. \<forall>e. f row \<noteq> Raises e)"
proof (induction tab arbitrary: rows unmapped)
  case Nil
  then show ?case by simp
next
  case (Cons row tab)
  show ?case
  proof (cases "f row")
    case Skipped
    with Cons.prems have "parse_loop f tab rows unmapped = Inr (R, U)" by simp
    from Cons.IH [OF this] Skipped show ?thesis by simp
  next
    case (Unmapped l)
    with Cons.prems have "parse_loop f tab rows (unmapped @ [l]) = Inr (R, U)" by simp
    from Cons.IH [OF this] Unmapped show ?thesis by simp
  next
    case (Parsed r)
    with Cons.prems have "parse_loop f tab (rows @ [r]) unmapped = Inr (R, U)" by simp
    from Cons.IH [OF this] Parsed show ?thesis by simp
  next
    case (Raises e)
    with Cons.prems show ?thesis by simp
  qed
qed


lemma parse_loop_Inl:
  "parse_loop f tab rows unmapped = Inl e \<Longrightarrow> \<exists>row\<in>set tab. f row = Raises e"
proof (induction tab arbitrary: rows unmapped)
  case Nil
  then show ?case by simp
next
  case (Cons row tab)
  then show ?case
    by (cases "f row") auto
qed

lemma parse_medal_table_Inr:
  assumes "parse_medal_table u fuzzy df n2c c2n = Inr (rows, um)"
  shows "rows = List.map_filter (\<lambda>row. case parse_row u fuzzy (cols df) n2c c2n row of
                                         Parsed r \<Rightarrow> Some r | _ \<Rightarrow> None) (body df)"
    and "um = sort (remdups (List.map_filter (\<lambda>row. case parse_row u fuzzy (cols df) n2c c2n row of
                                         Unmapped l \<Rightarrow> Some l | _ \<Rightarrow> None) (body df)))"
    and "\<forall>row\<in>set (body df). \<forall>e. parse_row u fuzzy (cols df) n2c c2n row \<noteq> Raises e"
proof -
  from assms obtain R U where
    l: "parse_loop (parse_row u fuzzy (cols df) n2c c2n) (body df) [] [] = Inr (R, U)"
    and r: "rows = R" "um = sort (remdups U)"
    by (auto simp: parse_medal_table_def split: sum.splits)
  note p = parse_loop_Inr [OF l]
  from p r show "rows = List.map_filter (\<lambda>row. case parse_row u fuzzy (cols df) n2c c2n row of
                                         Parsed r \<Rightarrow> Some r | _ \<Rightarrow> None) (body df)"
    by simp
  from p r show "um = sort (remdups (List.map_filter (\<lambda>row. case parse_row u fuzzy (cols df) n2c c2n row of
                                         Unmapped l \<Rightarrow> Some l | _ \<Rightarrow> None) (body df)))"
    by simp
  from p show "\<forall>row\<in>set (body df). \<forall>e. parse_row u fuzzy (cols df) n2c c2n row \<noteq> Raises e"
    by simp
qed


lemma parse_medal_table_Inl:
  assumes "parse_medal_table u fuzzy df n2c c2n = Inl e"
  shows "e = ValueError"
proof -
  from assms have "parse_loop (parse_row u fuzzy (cols df) n2c c2n) (body df) [] [] = Inl e"
    by (auto simp: parse_medal_table_def split: sum.splits)
  then obtain row where "parse_row u fuzzy (cols df) n2c c2n row = Raises e"
    using parse_loop_Inl by blast
  then show ?thesis by (rule parse_row_raises)
qed

lemma parse_medal_table_rows:
  assumes "parse_medal_table u fuzzy df n2c c2n = Inr (rows, um)"
  shows "r \<in> set rows \<longleftrightarrow> (\<exists>row \<in> set (body df). parse_row u fuzzy (cols df) n2c c2n row = Parsed r)"
  by (simp add: parse_medal_table_Inr(1) [OF assms] set_map_filter_iff parsed_case_iff)


section \<open>Running the definitions on the example data\<close>

lemmas norm_eval = normalize_text_def ascii_def strip_def replace_nbsp_def remove_glyphs_def
  is_footnote_glyph_def is_space_def LF_def SP_def STAR_def LBRACK_def RBRACK_def NBSP_def
  DAGGER_def DDAGGER_def

lemma truthy_simps: "truthy None = False" "truthy (Some s) = (s \<noteq> [])"
  by (simp_all add: truthy_def)

lemma cell_str_values: "cell_str (str_cell s) = ascii s" "cell_str NaN = ascii ''nan''"
  "cell_str (Value text) = text"
  by (simp_all add: cell_str_def str_cell_def)

lemma ex_row_get:
  "row_get (ex_row nation code g s b t) (nation_col ex_cols) = Some (cell_str nation)"
  "row_get (ex_row nation code g s b t) (noc_col ex_cols) = Some (cell_str code)"
  "row_get (ex_row nation code g s b t) (gold_col ex_cols) = Some (cell_str g)"
  "row_get (ex_row nation code g s b t) (silver_col ex_cols) = Some (cell_str s)"
  "row_get (ex_row nation code g s b t) (bronze_col ex_cols) = Some (cell_str b)"
  "row_get (ex_row nation code g s b t) (total_col ex_cols) = Some (cell_str t)"
  "row_get (ex_row nation code g s b t) (rank_col ex_cols) = None"
  by (simp_all add: row_get_def ex_row_def ex_cols_def ascii_def)

lemma ex_cols_truthy:
  "truthy (nation_col ex_cols)" "truthy (noc_col ex_cols)" "\<not> truthy (rank_col ex_cols)"
  by (simp_all add: truthy_def ex_cols_def ascii_def)

lemma to_int_values:
  "to_int (Some (ascii ''0'')) = Inr 0"
  "to_int (Some (ascii ''1'')) = Inr 1"
  "to_int (Some (ascii ''2'')) = Inr 2"
  "to_int (Some (ascii ''5'')) = Inr 5"
  "to_int (Some (ascii [])) = Inr 0"
  "to_int (Some (ascii ''nan'')) = Inr 0"
  "to_int (Some (ascii ''n/a'')) = Inr 0"
  "to_int (Some (ascii ''-7'')) = Inr 7"
  "to_int (Some (ascii ''1,234[b]'')) = Inr 1234"
  "to_int None = Inr 0"
  by (simp_all add: to_int_def int_of_str_def MAX_STR_DIGITS_def int_of_digits_def is_digit_def norm_eval)

lemma normalize_values:
  "normalize_text (Some (ascii [])) = []"
  "normalize_text (Some (ascii ''A'')) = ascii ''A''"
  "normalize_text (Some (ascii ''AAA'')) = ascii ''AAA''"
  "normalize_text (Some (ascii ''nan'')) = ascii ''nan''"
  "normalize_text (Some (ascii ''-'')) = ascii ''-''"
  "normalize_text (Some (ascii ''Totals'')) = ascii ''Totals''"
  "normalize_text (Some (ascii ''Atlantis'')) = ascii ''Atlantis''"
  by (simp_all add: norm_eval)

lemma name_override_values:
  "name_override (ascii ''A'') = ascii ''A''"
  "name_override (ascii ''Totals'') = ascii ''Totals''"
  "name_override (ascii ''Atlantis'') = ascii ''Atlantis''"
  by (simp_all add: name_override_def NAME_OVERRIDES_def Turkiye_def Cote_dIvoire_def Curacao_def ascii_def)

lemma iso2_no_fuzzy:
  "iso2_from_country no_fuzzy (ascii ''A'') = None"
  "iso2_from_country no_fuzzy (ascii ''Atlantis'') = None"
  by (simp_all add: iso2_from_country_def ISO2_OVERRIDES_def Turkiye_def Cote_dIvoire_def no_fuzzy_def ascii_def)

lemma label_facts:
  "ascii ''A'' \<noteq> []" "\<not> startswith (lower (ascii ''A'')) (ascii ''total'')"
  "ascii ''AAA'' \<noteq> []" "length (ascii ''AAA'') = 3"
  "startswith (lower (ascii ''Totals'')) (ascii ''total'')"
  "ascii ''Atlantis'' \<noteq> []" "\<not> startswith (lower (ascii ''Atlantis'')) (ascii ''total'')"
  "ascii ''nan'' \<noteq> []" "length (ascii ''nan'') = 3"
  "ascii ''-'' \<noteq> []" "length (ascii ''-'') \<noteq> 3"
  by (simp_all add: ascii_def startswith_def lower_def lower_char_def is_upper_def)

lemma ex_parse_A_row:
  assumes "to_int (Some (cell_str g)) = Inr gv" "to_int (Some (cell_str s)) = Inr sv"
    "to_int (Some (cell_str b)) = Inr bv" "to_int (Some (cell_str t)) = Inr tv"
  shows "parse_row latin1_ucd fuzzy ex_cols Map.empty Map.empty
           (ex_row (str_cell ''A'') (str_cell ''AAA'') g s b t) =
     Parsed \<lparr> rank = None, country = ascii ''A'', noc = ascii ''AAA'',
              iso2 = iso2_from_country fuzzy (ascii ''A''),
              flag_url = (if truthy (iso2_from_country fuzzy (ascii ''A''))
                          then map_option (\<lambda>c. flag_template (lower c)) (iso2_from_country fuzzy (ascii ''A''))
                          else None),
              gold = gv, silver = sv, bronze = bv,
              total = (if tv = 0 then gv + sv + bv else tv), is_eu = None \<rparr>"
  by (simp add: parse_row_def build_row_def Let_def col_text_def ex_row_get ex_cols_truthy
      cell_str_values normalize_values name_override_values label_facts assms)

lemma ex_parse_A:
  "ex_parse ex_A =
     Parsed \<lparr> rank = None, country = ascii ''A'', noc = ascii ''AAA'', iso2 = None, flag_url = None,
              gold = 1, silver = 1, bronze = 0, total = 2, is_eu = None \<rparr>"
  unfolding ex_parse_def ex_A_def
  by (subst ex_parse_A_row [where gv = 1 and sv = 1 and bv = 0 and tv = 0])
     (simp_all add: cell_str_values to_int_values iso2_no_fuzzy truthy_simps)

lemma ex_parse_Totals: "parse_row latin1_ucd fuzzy ex_cols Map.empty Map.empty ex_Totals = Skipped"
  by (simp add: ex_Totals_def parse_row_def Let_def col_text_def ex_row_get ex_cols_truthy
      cell_str_values normalize_values name_override_values label_facts)

lemma ex_table_parse:
  "parse_medal_table latin1_ucd no_fuzzy ex_table Map.empty Map.empty =
     Inr ([\<lparr> rank = None, country = ascii ''A'', noc = ascii ''AAA'', iso2 = None, flag_url = None,
             gold = 1, silver = 1, bronze = 0, total = 2, is_eu = None \<rparr>], [])"
  using ex_parse_A ex_parse_Totals [of no_fuzzy]
  by (simp add: parse_medal_table_def ex_table_def ex_parse_def)

section \<open>The total of a row\<close>

text \<open>
  C4. During per-row extraction the total is recomputed as gold + silver + bronze if
  and only if the parsed total is 0: a row with parsed total 0 and gold 1, silver 1,
  bronze 0 gets total 2, and a row with parsed total 5 and the same medal counts keeps
  total 5. The three medal counts are the parsed cells.
\<close>

theorem total_repair:
  assumes "parse_row u fuzzy cs n2c c2n row = Parsed r"
  shows "to_int (row_get row (gold_col cs)) = Inr (gold r) \<and>
         to_int (row_get row (silver_col cs)) = Inr (silver r) \<and>
         to_int (row_get row (bronze_col cs)) = Inr (bronze r) \<and>
         (\<exists>t. to_int (row_get row (total_col cs)) = Inr t \<and>
              (t = 0 \<longrightarrow> total r = gold r + silver r + bronze r) \<and>
              (t \<noteq> 0 \<longrightarrow> total r = t)) \<and>
         (to_int (row_get row (total_col cs)) = Inr 0 \<and> gold r = 1 \<and> silver r = 1 \<and> bronze r = 0
            \<longrightarrow> total r = 2) \<and>
         (to_int (row_get row (total_col cs)) = Inr 5 \<and> gold r = 1 \<and> silver r = 1 \<and> bronze r = 0
            \<longrightarrow> total r = 5)"
proof -
  note f = parse_row_fields [OF assms]
  from f(4) obtain t where t: "to_int (row_get row (total_col cs)) = Inr t"
    "total r = (if t = 0 then gold r + silver r + bronze r else t)" by blast
  have "\<exists>t. to_int (row_get row (total_col cs)) = Inr t \<and>
              (t = 0 \<longrightarrow> total r = gold r + silver r + bronze r) \<and>
              (t \<noteq> 0 \<longrightarrow> total r = t)"
    using t by (intro exI [of _ t]) simp
  moreover have "to_int (row_get row (total_col cs)) = Inr 0 \<and> gold r = 1 \<and> silver r = 1 \<and> bronze r = 0
            \<longrightarrow> total r = 2"
    using t by simp
  moreover have "to_int (row_get row (total_col cs)) = Inr 5 \<and> gold r = 1 \<and> silver r = 1 \<and> bronze r = 0
            \<longrightarrow> total r = 5"
    using t by simp
  ultimately show ?thesis
    using f(1-3) by blast
qed

theorem total_repair_witness:
  "ex_parse (ex_row (str_cell ''A'') (str_cell ''AAA'') (str_cell ''1'') (str_cell ''1'') (str_cell ''0'') NaN) =
     Parsed \<lparr> rank = None, country = ascii ''A'', noc = ascii ''AAA'', iso2 = None, flag_url = None,
              gold = 1, silver = 1, bronze = 0, total = 2, is_eu = None \<rparr> \<and>
   ex_parse (ex_row (str_cell ''A'') (str_cell ''AAA'') (str_cell ''1'') (str_cell ''1'') (str_cell ''0'')
               (str_cell ''5'')) =
     Parsed \<lparr> rank = None, country = ascii ''A'', noc = ascii ''AAA'', iso2 = None, flag_url = None,
              gold = 1, silver = 1, bronze = 0, total = 5, is_eu = None \<rparr> \<and>
   to_int (Some (cell_str NaN)) = Inr 0 \<and> to_int (Some (cell_str (str_cell ''5''))) = Inr 5"
proof -
  have a: "parse_row latin1_ucd no_fuzzy ex_cols Map.empty Map.empty
        (ex_row (str_cell ''A'') (str_cell ''AAA'') (str_cell ''1'') (str_cell ''1'') (str_cell ''0'') NaN) =
        Parsed \<lparr> rank = None, country = ascii ''A'', noc = ascii ''AAA'', iso2 = None, flag_url = None,
              gold = 1, silver = 1, bronze = 0, total = 2, is_eu = None \<rparr>"
    using ex_parse_A by (simp add: ex_parse_def ex_A_def)
  have b: "parse_row latin1_ucd no_fuzzy ex_cols Map.empty Map.empty
        (ex_row (str_cell ''A'') (str_cell ''AAA'') (str_cell ''1'') (str_cell ''1'') (str_cell ''0'') (str_cell ''5'')) =
        Parsed \<lparr> rank = None, country = ascii ''A'', noc = ascii ''AAA'', iso2 = None, flag_url = None,
              gold = 1, silver = 1, bronze = 0, total = 5, is_eu = None \<rparr>"
    by (subst ex_parse_A_row [where gv = 1 and sv = 1 and bv = 0 and tv = 5])
       (simp_all add: cell_str_values to_int_values iso2_no_fuzzy truthy_simps)
  show ?thesis
    using total_repair [OF a] total_repair [OF b] a b
    by (simp add: ex_parse_def cell_str_values to_int_values)
qed

section \<open>Facts about the ranking loop\<close>

lemma rank_loop_Cons_0:
  "rank (rank_loop idx rnk prev (x # xs) ! 0) = Some (if Some (medal_tuple x) \<noteq> prev then idx else rnk)"
  by (simp add: Let_def)

lemma rank_loop_Cons_Suc:
  "rank_loop idx rnk prev (x # xs) ! Suc i =
     rank_loop (idx + 1) (if Some (medal_tuple x) \<noteq> prev then idx else rnk) (Some (medal_tuple x)) xs ! i"
  by (simp add: Let_def)

lemma rank_loop_same:
  "i < length xs \<Longrightarrow> \<forall>k\<le>i. medal_tuple (xs ! k) = t \<Longrightarrow>
     rank (rank_loop idx rnk (Some t) xs ! i) = Some rnk"
proof (induction xs arbitrary: i idx)
  case Nil
  then show ?case by simp
next
  case (Cons x xs)
  from Cons.prems(2) have "0 \<le> i \<longrightarrow> medal_tuple ((x # xs) ! 0) = t" by (rule spec)
  then have x: "medal_tuple x = t" by simp
  show ?case
  proof (cases i)
    case 0
    show ?thesis unfolding 0 rank_loop_Cons_0 using x by simp
  next
    case (Suc i')
    have "\<forall>k\<le>i'. medal_tuple (xs ! k) = t"
    proof (intro allI impI)
      fix k assume "k \<le> i'"
      then have "Suc k \<le> i" by (simp add: Suc)
      with Cons.prems(2) have "medal_tuple ((x # xs) ! Suc k) = t" by blast
      then show "medal_tuple (xs ! k) = t" by simp
    qed
    moreover have "i' < length xs" using Cons.prems(1) Suc by simp
    ultimately have "rank (rank_loop (idx + 1) rnk (Some t) xs ! i') = Some rnk"
      by (rule Cons.IH [rotated])
    then show ?thesis
      unfolding Suc rank_loop_Cons_Suc using x by simp
  qed
qed

lemma rank_loop_run:
  "i < length xs \<Longrightarrow> j \<le> i \<Longrightarrow>
   \<forall>k. j \<le> k \<and> k \<le> i \<longrightarrow> medal_tuple (xs ! k) = medal_tuple (xs ! i) \<Longrightarrow>
   (if j = 0 then prev \<noteq> Some (medal_tuple (xs ! i))
    else medal_tuple (xs ! (j - 1)) \<noteq> medal_tuple (xs ! i)) \<Longrightarrow>
   rank (rank_loop idx rnk prev xs ! i) = Some (idx + int j)"
proof (induction xs arbitrary: i j idx rnk prev)
  case Nil
  then show ?case by simp
next
  case (Cons x xs)
  note run = Cons.prems(3) and start = Cons.prems(4)
  show ?case
  proof (cases j)
    case j0: 0
    from run have "j \<le> 0 \<and> 0 \<le> i \<longrightarrow> medal_tuple ((x # xs) ! 0) = medal_tuple ((x # xs) ! i)"
      by (rule spec)
    then have x: "medal_tuple ((x # xs) ! i) = medal_tuple x"
      by (simp add: j0)
    from start have "prev \<noteq> Some (medal_tuple ((x # xs) ! i))"
      by (simp add: j0)
    then have changed: "Some (medal_tuple x) \<noteq> prev"
      unfolding x by (rule not_sym)
    show ?thesis
    proof (cases i)
      case 0
      show ?thesis unfolding 0 rank_loop_Cons_0 using changed j0 by simp
    next
      case (Suc i')
      have "\<forall>k\<le>i'. medal_tuple (xs ! k) = medal_tuple x"
      proof (intro allI impI)
        fix k assume "k \<le> i'"
        then have "0 \<le> Suc k \<and> Suc k \<le> i" by (simp add: Suc)
        with run j0 have "medal_tuple ((x # xs) ! Suc k) = medal_tuple ((x # xs) ! i)" by blast
        then show "medal_tuple (xs ! k) = medal_tuple x" unfolding x by simp
      qed
      moreover have "i' < length xs" using Cons.prems(1) Suc by simp
      ultimately have "rank (rank_loop (idx + 1) idx (Some (medal_tuple x)) xs ! i') = Some idx"
        by (rule rank_loop_same [rotated])
      then show ?thesis
        unfolding Suc rank_loop_Cons_Suc using changed j0 by simp
    qed
  next
    case js: (Suc j')
    with Cons.prems(2) obtain i' where i: "i = Suc i'" and le: "j' \<le> i'"
      by (cases i) auto
    have len: "i' < length xs" using Cons.prems(1) i by simp
    have run': "\<forall>k. j' \<le> k \<and> k \<le> i' \<longrightarrow> medal_tuple (xs ! k) = medal_tuple (xs ! i')"
    proof (intro allI impI)
      fix k assume "j' \<le> k \<and> k \<le> i'"
      then have "j \<le> Suc k \<and> Suc k \<le> i" by (simp add: js i)
      with run have "medal_tuple ((x # xs) ! Suc k) = medal_tuple ((x # xs) ! i)" by blast
      then show "medal_tuple (xs ! k) = medal_tuple (xs ! i')" by (simp add: i)
    qed
    have start': "if j' = 0 then Some (medal_tuple x) \<noteq> Some (medal_tuple (xs ! i'))
                  else medal_tuple (xs ! (j' - 1)) \<noteq> medal_tuple (xs ! i')"
    proof (cases j')
      case 0
      with start js i show ?thesis by simp
    next
      case (Suc j'')
      with start js i show ?thesis by simp
    qed
    have "rank (rank_loop (idx + 1) (if Some (medal_tuple x) \<noteq> prev then idx else rnk)
             (Some (medal_tuple x)) xs ! i') = Some (idx + 1 + int j')"
      by (rule Cons.IH [OF len le run' start'])
    then show ?thesis
      unfolding i rank_loop_Cons_Suc by (simp add: js)
  qed
qed

lemma rank_loop_length: "length (rank_loop idx rnk prev xs) = length xs"
  by (induction xs arbitrary: idx rnk prev) (simp_all add: Let_def)

lemma rank_loop_clear:
  "map (\<lambda>r. r\<lparr>rank := None\<rparr>) (rank_loop idx rnk prev xs) = map (\<lambda>r. r\<lparr>rank := None\<rparr>) xs"
  by (induction xs arbitrary: idx rnk prev) (simp_all add: Let_def)

lemma rank_loop_sort_tuple: "map sort_tuple (rank_loop idx rnk prev xs) = map sort_tuple xs"
  by (induction xs arbitrary: idx rnk prev) (simp_all add: Let_def sort_tuple_def)

lemma rank_loop_medal_tuple: "map medal_tuple (rank_loop idx rnk prev xs) = map medal_tuple xs"
  by (induction xs arbitrary: idx rnk prev) (simp_all add: Let_def medal_tuple_def)

lemma sort_tuple_le_iff:
  "sort_tuple a \<le> sort_tuple b \<longleftrightarrow>
     medal_tuple b < medal_tuple a \<or> (medal_tuple a = medal_tuple b \<and> country a \<le> country b)"
  by (auto simp: sort_tuple_def medal_tuple_def)

lemma sort_tuple_sandwich:
  assumes "sort_tuple a \<le> sort_tuple b" "sort_tuple b \<le> sort_tuple c" "medal_tuple a = medal_tuple c"
  shows "medal_tuple b = medal_tuple c"
proof -
  from assms(1) have 1: "medal_tuple b \<le> medal_tuple a"
    by (auto simp: sort_tuple_le_iff)
  from assms(2) have 2: "medal_tuple c \<le> medal_tuple b"
    by (auto simp: sort_tuple_le_iff)
  from 1 2 assms(3) show ?thesis by simp
qed

lemma run_start_exists:
  fixes f :: "nat \<Rightarrow> 'a"
  shows "\<exists>j\<le>i. (\<forall>k. j \<le> k \<and> k \<le> i \<longrightarrow> f k = f i) \<and> (0 < j \<longrightarrow> f (j - 1) \<noteq> f i)"
proof -
  define P where "P j \<longleftrightarrow> (\<forall>k. j \<le> k \<and> k \<le> i \<longrightarrow> f k = f i)" for j
  define j where "j = (LEAST j. P j)"
  have Pi: "P i" unfolding P_def by (auto dest: le_antisym)
  then have Pj: "P j" unfolding j_def by (rule LeastI)
  have le: "j \<le> i" unfolding j_def using Pi by (rule Least_le)
  have "f (j - 1) \<noteq> f i" if "0 < j"
  proof
    assume eq: "f (j - 1) = f i"
    have "P (j - 1)"
      unfolding P_def
    proof (intro allI impI)
      fix k assume k: "j - 1 \<le> k \<and> k \<le> i"
      show "f k = f i"
      proof (cases "k = j - 1")
        case True
        with eq show ?thesis by simp
      next
        case False
        with k have "j \<le> k \<and> k \<le> i" by arith
        with Pj show ?thesis unfolding P_def by blast
      qed
    qed
    then have "j \<le> j - 1" unfolding j_def by (rule Least_le)
    with that show False by arith
  qed
  with Pj le show ?thesis unfolding P_def by blast
qed

lemma compute_rank_length: "length (compute_rank rows) = length rows"
  by (simp add: compute_rank_def rank_loop_length)

lemma compute_rank_sorted: "sorted (map sort_tuple (compute_rank rows))"
  by (simp add: compute_rank_def rank_loop_sort_tuple)

lemma compute_rank_mset:
  "mset (map (\<lambda>r. r\<lparr>rank := None\<rparr>) (compute_rank rows)) = mset (map (\<lambda>r. r\<lparr>rank := None\<rparr>) rows)"
proof -
  have "mset (map (\<lambda>r. r\<lparr>rank := None\<rparr>) (sort_key sort_tuple rows)) = mset (map (\<lambda>r. r\<lparr>rank := None\<rparr>) rows)"
    by simp
  then show ?thesis
    by (simp only: compute_rank_def rank_loop_clear)
qed

lemma compute_rank_rank:
  assumes "i < length rows"
  shows "\<exists>j\<le>i. rank (compute_rank rows ! i) = Some (int j + 1) \<and>
           medal_tuple (compute_rank rows ! j) = medal_tuple (compute_rank rows ! i) \<and>
           (\<forall>k<j. medal_tuple (compute_rank rows ! k) \<noteq> medal_tuple (compute_rank rows ! i))"
proof -
  define xs where "xs = sort_key sort_tuple rows"
  have len: "i < length xs" using assms by (simp add: xs_def)
  have srt: "sorted (map sort_tuple xs)" by (simp add: xs_def)
  have res: "compute_rank rows = rank_loop 1 0 None xs"
    by (simp add: compute_rank_def xs_def)
  have mt: "medal_tuple (compute_rank rows ! k) = medal_tuple (xs ! k)" if "k < length xs" for k
  proof -
    have "map medal_tuple (compute_rank rows) ! k = map medal_tuple xs ! k"
      by (simp only: res rank_loop_medal_tuple)
    with that show ?thesis by (simp add: res rank_loop_length)
  qed
  obtain j where j: "j \<le> i"
    and run: "\<forall>k. j \<le> k \<and> k \<le> i \<longrightarrow> medal_tuple (xs ! k) = medal_tuple (xs ! i)"
    and start: "0 < j \<longrightarrow> medal_tuple (xs ! (j - 1)) \<noteq> medal_tuple (xs ! i)"
    using run_start_exists [of i "\<lambda>k. medal_tuple (xs ! k)"] by blast
  have start': "if j = 0 then None \<noteq> Some (medal_tuple (xs ! i))
                else medal_tuple (xs ! (j - 1)) \<noteq> medal_tuple (xs ! i)"
    using start by simp
  have rk: "rank (compute_rank rows ! i) = Some (int j + 1)"
    unfolding res using rank_loop_run [OF len j run start', of 1 0] by simp
  from run j have same: "medal_tuple (xs ! j) = medal_tuple (xs ! i)" by blast
  have before: "medal_tuple (xs ! k) \<noteq> medal_tuple (xs ! i)" if "k < j" for k
  proof
    assume eq: "medal_tuple (xs ! k) = medal_tuple (xs ! i)"
    from that have pos: "0 < j" by simp
    from that j len have k1: "k \<le> j - 1" and k2: "j - 1 \<le> i" and k3: "j - 1 < length xs" and k4: "k < length xs"
      by simp_all
    have a: "sort_tuple (xs ! k) \<le> sort_tuple (xs ! (j - 1))"
      using sorted_nth_mono [OF srt, of k "j - 1"] k1 k3 k4 by simp
    have b: "sort_tuple (xs ! (j - 1)) \<le> sort_tuple (xs ! i)"
      using sorted_nth_mono [OF srt, of "j - 1" i] k2 k3 len by simp
    from sort_tuple_sandwich [OF a b eq] start pos show False by simp
  qed
  have jl: "j < length xs" using j len by simp
  show ?thesis
  proof (intro exI conjI allI impI)
    show "j \<le> i" by (rule j)
    show "rank (compute_rank rows ! i) = Some (int j + 1)" by (rule rk)
    show "medal_tuple (compute_rank rows ! j) = medal_tuple (compute_rank rows ! i)"
      by (simp only: mt [OF jl] mt [OF len] same)
    fix k assume kj: "k < j"
    then have "k < length xs" using jl by simp
    then show "medal_tuple (compute_rank rows ! k) \<noteq> medal_tuple (compute_rank rows ! i)"
      using before [OF kj] by (simp only: mt mt [OF len] not_False_eq_True)
  qed
qed

lemma compute_rank_order:
  assumes "i < j" "j < length rows"
  shows "medal_tuple (compute_rank rows ! j) < medal_tuple (compute_rank rows ! i) \<or>
         (medal_tuple (compute_rank rows ! i) = medal_tuple (compute_rank rows ! j) \<and>
          country (compute_rank rows ! i) \<le> country (compute_rank rows ! j))"
proof -
  have "sort_tuple (compute_rank rows ! i) \<le> sort_tuple (compute_rank rows ! j)"
    using sorted_nth_mono [OF compute_rank_sorted [of rows], of i j] assms
    by (simp add: compute_rank_length)
  then show ?thesis by (simp only: sort_tuple_le_iff)
qed

lemma three_rows_ranks:
  assumes "medal_tuple r1 = (3, 2, 1, 6)" "medal_tuple r2 = (3, 2, 1, 6)" "medal_tuple r3 = (2, 0, 0, 2)"
  shows "map rank (compute_rank [r1, r2, r3]) = [Some 1, Some 1, Some 3]"
proof -
  from assms have f: "gold r1 = 3" "silver r1 = 2" "bronze r1 = 1" "total r1 = 6"
    "gold r2 = 3" "silver r2 = 2" "bronze r2 = 1" "total r2 = 6"
    "gold r3 = 2" "silver r3 = 0" "bronze r3 = 0" "total r3 = 2"
    by (simp_all add: medal_tuple_def)
  show ?thesis
    by (cases "country r1 \<le> country r2")
       (simp_all add: compute_rank_def sort_tuple_def medal_tuple_def Let_def f)
qed

text \<open>
  C2. \<open>compute_rank\<close> returns the rows it was given (up to the rank it writes), in
  descending order of the tuple (gold, silver, bronze, total), compared
  lexicographically, with ascending country name between rows of equal tuples. The row
  at position \<open>i\<close> (from 0) gets the 1-based position \<open>j + 1\<close> of the first row
  that has its tuple: tied rows share the rank of the first of their group, and the next
  distinct tuple gets its own position. Rows with the tuples (3,2,1,6), (3,2,1,6),
  (2,0,0,2) get the ranks 1, 1, 3.
\<close>

theorem compute_rank_dense:
  "mset (map (\<lambda>r. r\<lparr>rank := None\<rparr>) (compute_rank rows)) = mset (map (\<lambda>r. r\<lparr>rank := None\<rparr>) rows) \<and>
   (\<forall>i j. i < j \<and> j < length rows \<longrightarrow>
      medal_tuple (compute_rank rows ! j) < medal_tuple (compute_rank rows ! i) \<or>
      (medal_tuple (compute_rank rows ! i) = medal_tuple (compute_rank rows ! j) \<and>
       country (compute_rank rows ! i) \<le> country (compute_rank rows ! j))) \<and>
   (\<forall>i<length rows. \<exists>j\<le>i.
      rank (compute_rank rows ! i) = Some (int j + 1) \<and>
      medal_tuple (compute_rank rows ! j) = medal_tuple (compute_rank rows ! i) \<and>
      (\<forall>k<j. medal_tuple (compute_rank rows ! k) \<noteq> medal_tuple (compute_rank rows ! i))) \<and>
   (medal_tuple r1 = (3, 2, 1, 6) \<and> medal_tuple r2 = (3, 2, 1, 6) \<and> medal_tuple r3 = (2, 0, 0, 2) \<longrightarrow>
      map rank (compute_rank [r1, r2, r3]) = [Some 1, Some 1, Some 3])"
  using compute_rank_mset [of rows] compute_rank_order [of _ _ rows] compute_rank_rank [of _ rows]
    three_rows_ranks [of r1 r2 r3]
  by blast

theorem compute_rank_dense_witness:
  "medal_tuple (ex_medals ''B'' 3 2 1 6) = (3, 2, 1, 6) \<and>
   medal_tuple (ex_medals ''A'' 3 2 1 6) = (3, 2, 1, 6) \<and>
   medal_tuple (ex_medals ''C'' 2 0 0 2) = (2, 0, 0, 2) \<and>
   map rank (compute_rank [ex_medals ''B'' 3 2 1 6, ex_medals ''A'' 3 2 1 6, ex_medals ''C'' 2 0 0 2]) =
     [Some 1, Some 1, Some 3] \<and>
   map country (compute_rank [ex_medals ''B'' 3 2 1 6, ex_medals ''A'' 3 2 1 6, ex_medals ''C'' 2 0 0 2]) =
     [ascii ''A'', ascii ''B'', ascii ''C'']"
proof -
  have c: "map country (compute_rank [ex_medals ''B'' 3 2 1 6, ex_medals ''A'' 3 2 1 6, ex_medals ''C'' 2 0 0 2]) =
     [ascii ''A'', ascii ''B'', ascii ''C'']"
    by (simp add: compute_rank_def sort_tuple_def medal_tuple_def Let_def ex_medals_def ascii_def)
  have t: "medal_tuple (ex_medals ''B'' 3 2 1 6) = (3, 2, 1, 6)"
    "medal_tuple (ex_medals ''A'' 3 2 1 6) = (3, 2, 1, 6)"
    "medal_tuple (ex_medals ''C'' 2 0 0 2) = (2, 0, 0, 2)"
    by (simp_all add: medal_tuple_def ex_medals_def)
  from compute_rank_dense [of "[ex_medals ''B'' 3 2 1 6, ex_medals ''A'' 3 2 1 6, ex_medals ''C'' 2 0 0 2]"
      "ex_medals ''B'' 3 2 1 6" "ex_medals ''A'' 3 2 1 6" "ex_medals ''C'' 2 0 0 2"] t c
  show ?thesis by simp
qed

section \<open>Facts about the aggregate row and the output\<close>

lemma eu_nocs_of_iff:
  "n \<in> eu_nocs_of ms \<longleftrightarrow> n \<noteq> [] \<and> (\<exists>m\<in>set ms. member_noc m = Some n)"
  by (auto simp: eu_nocs_of_def set_map_filter_iff truthy_def split: if_splits option.splits)

lemma load_eu_members_set:
  "m \<in> set (load_eu_members file) \<longleftrightarrow> eu_member m \<and> (\<exists>ms. file = Some (Some ms) \<and> m \<in> set ms)"
  by (auto simp: load_eu_members_def split: option.splits)

lemma add_eu_row_eq:
  "add_eu_row rows ms =
     map (\<lambda>r. r\<lparr>is_eu := Some (noc r \<in> eu_nocs_of ms)\<rparr>) rows @
       [eu_row (sum_list (map gold (filter (\<lambda>r. noc r \<in> eu_nocs_of ms) rows)))
               (sum_list (map silver (filter (\<lambda>r. noc r \<in> eu_nocs_of ms) rows)))
               (sum_list (map bronze (filter (\<lambda>r. noc r \<in> eu_nocs_of ms) rows)))]"
  by (simp add: add_eu_row_def Let_def)

lemma add_eu_row_no_members:
  "add_eu_row rows [] = map (\<lambda>r. r\<lparr>is_eu := Some False\<rparr>) rows @ [eu_row 0 0 0]"
  by (simp add: add_eu_row_eq eu_nocs_of_def)

lemma load_eu_members_absent: "load_eu_members None = []" "load_eu_members (Some None) = []"
  by (simp_all add: load_eu_members_def)

text \<open>
  C10. \<open>add_eu_row\<close> always appends the row "European Union" with NOC "EU27" and
  \<open>is_eu\<close> true, whatever the member file holds: when the file is absent, has no
  \<open>members\<close> key or lists no entry with \<open>eu_member\<close> true, its gold, silver, bronze
  and total are 0. Every row that was there keeps its fields and gets a boolean
  \<open>is_eu\<close>, true exactly when its NOC is the non-empty NOC of a listed member.
\<close>

theorem eu_row_unconditional:
  "add_eu_row rows (load_eu_members file) =
     map (\<lambda>r. r\<lparr>is_eu := Some (noc r \<in> eu_nocs_of (load_eu_members file))\<rparr>) rows @
       [eu_row (sum_list (map gold (filter (\<lambda>r. noc r \<in> eu_nocs_of (load_eu_members file)) rows)))
               (sum_list (map silver (filter (\<lambda>r. noc r \<in> eu_nocs_of (load_eu_members file)) rows)))
               (sum_list (map bronze (filter (\<lambda>r. noc r \<in> eu_nocs_of (load_eu_members file)) rows)))] \<and>
   (n \<in> eu_nocs_of (load_eu_members file) \<longleftrightarrow>
      n \<noteq> [] \<and> (\<exists>ms m. file = Some (Some ms) \<and> m \<in> set ms \<and> eu_member m \<and> member_noc m = Some n)) \<and>
   country (eu_row g s b) = ascii ''European Union'' \<and>
   noc (eu_row g s b) = ascii ''EU27'' \<and>
   is_eu (eu_row g s b) = Some True \<and>
   (file = None \<or> file = Some None \<or> load_eu_members file = [] \<longrightarrow>
      add_eu_row rows (load_eu_members file) = map (\<lambda>r. r\<lparr>is_eu := Some False\<rparr>) rows @ [eu_row 0 0 0]) \<and>
   gold (eu_row 0 0 0) = 0 \<and> silver (eu_row 0 0 0) = 0 \<and> bronze (eu_row 0 0 0) = 0 \<and> total (eu_row 0 0 0) = 0"
proof -
  have a: "n \<in> eu_nocs_of (load_eu_members file) \<longleftrightarrow>
      n \<noteq> [] \<and> (\<exists>ms m. file = Some (Some ms) \<and> m \<in> set ms \<and> eu_member m \<and> member_noc m = Some n)"
    by (simp add: eu_nocs_of_iff Bex_def load_eu_members_set) blast
  have b: "file = None \<or> file = Some None \<or> load_eu_members file = [] \<longrightarrow>
      add_eu_row rows (load_eu_members file) = map (\<lambda>r. r\<lparr>is_eu := Some False\<rparr>) rows @ [eu_row 0 0 0]"
    using add_eu_row_no_members [of rows] by (auto simp: load_eu_members_absent)
  have c: "country (eu_row g s b) = ascii ''European Union''" "noc (eu_row g s b) = ascii ''EU27''"
    "is_eu (eu_row g s b) = Some True"
    "gold (eu_row 0 0 0) = 0" "silver (eu_row 0 0 0) = 0" "bronze (eu_row 0 0 0) = 0" "total (eu_row 0 0 0) = 0"
    by (simp_all add: eu_row_def)
  show ?thesis
    using a b c add_eu_row_eq [of rows "load_eu_members file"] by blast
qed

theorem eu_row_unconditional_witness:
  "load_eu_members None = [] \<and>
   add_eu_row [ex_medals ''A'' 1 0 0 1] (load_eu_members None) =
     [(ex_medals ''A'' 1 0 0 1)\<lparr>is_eu := Some False\<rparr>, eu_row 0 0 0] \<and>
   add_eu_row [] (load_eu_members (Some (Some []))) = [eu_row 0 0 0] \<and>
   noc (eu_row 0 0 0) = ascii ''EU27'' \<and> total (eu_row 0 0 0) = 0 \<and> is_eu (eu_row 0 0 0) = Some True"
  using eu_row_unconditional [of "[ex_medals ''A'' 1 0 0 1]" None "[]" 0 0 0]
    eu_row_unconditional [of "[]" "Some (Some [])" "[]" 0 0 0]
  by (simp add: load_eu_members_def eu_nocs_of_def)
lemma write_outputs_files:
  "medals_csv (write_outputs w fs rows m um) = Some (compute_rank rows)"
  "map_option p_rows (medals_json (write_outputs w fs rows m um)) = Some (compute_rank rows)"
  "meta_json (write_outputs w fs rows m um) = Some (m\<lparr>unmapped_countries := um\<rparr>)"
  by (simp_all add: write_outputs_def Let_def)

lemma update_success:
  assumes "ioc_codes w = Inr (c2n, n2c)"
    and "parse_medal_table (unicode w) (pycountry w) df n2c c2n = Inr (rows, [])"
  shows "outcome (update w m hs (Some df)) = Returned 0"
    and "medals_csv (disk_after (update w m hs (Some df))) =
           Some (compute_rank (add_eu_row rows (load_eu_members (eu_members_json w))))"
    and "map_option p_rows (medals_json (disk_after (update w m hs (Some df)))) =
           Some (compute_rank (add_eu_row rows (load_eu_members (eu_members_json w))))"
    and "map_option unmapped_countries (meta_json (disk_after (update w m hs (Some df)))) = Some []"
  using assms by (simp_all add: update_def Let_def write_outputs_files)

lemma compute_rank_ranked:
  assumes "r \<in> set (compute_rank rows)"
  shows "\<exists>k\<ge>1. rank r = Some k"
proof -
  from assms obtain i where i: "i < length rows" and r: "r = compute_rank rows ! i"
    by (auto simp: in_set_conv_nth compute_rank_length)
  from compute_rank_rank [OF i] obtain j where "rank r = Some (int j + 1)"
    unfolding r by blast
  then show ?thesis by (intro exI [of _ "int j + 1"]) simp
qed

lemma ex_nocs: "eu_nocs_of (load_eu_members ex_members_file) = {ascii ''A'', ascii ''B''}"
  by (auto simp: eu_nocs_of_def load_eu_members_def ex_members_file_def truthy_simps ascii_def)

lemma ex_add:
  "add_eu_row [ex_medals ''A'' 1 0 0 1, ex_medals ''B'' 0 1 0 1, ex_medals ''C'' 5 0 0 5]
       (load_eu_members ex_members_file) =
     [(ex_medals ''A'' 1 0 0 1)\<lparr>is_eu := Some True\<rparr>, (ex_medals ''B'' 0 1 0 1)\<lparr>is_eu := Some True\<rparr>,
      (ex_medals ''C'' 5 0 0 5)\<lparr>is_eu := Some False\<rparr>, eu_row 1 1 0]"
  by (simp add: add_eu_row_def Let_def ex_nocs) (simp add: ex_medals_def ascii_def)

lemma ex_rank:
  "compute_rank
     [(ex_medals ''A'' 1 0 0 1)\<lparr>is_eu := Some True\<rparr>, (ex_medals ''B'' 0 1 0 1)\<lparr>is_eu := Some True\<rparr>,
      (ex_medals ''C'' 5 0 0 5)\<lparr>is_eu := Some False\<rparr>, eu_row 1 1 0] =
     [(ex_medals ''C'' 5 0 0 5)\<lparr>is_eu := Some False, rank := Some 1\<rparr>,
      (eu_row 1 1 0)\<lparr>rank := Some 2\<rparr>,
      (ex_medals ''A'' 1 0 0 1)\<lparr>is_eu := Some True, rank := Some 3\<rparr>,
      (ex_medals ''B'' 0 1 0 1)\<lparr>is_eu := Some True, rank := Some 4\<rparr>]"
  by (simp add: compute_rank_def sort_tuple_def medal_tuple_def Let_def ex_medals_def eu_row_def)

lemma rank_loop_noc: "map noc (rank_loop idx rnk prev xs) = map noc xs"
  by (induction xs arbitrary: idx rnk prev) (simp_all add: Let_def)

lemma compute_rank_nocs: "noc ` set (compute_rank rows) = noc ` set rows"
proof -
  have "set (map noc (compute_rank rows)) = set (map noc (sort_key sort_tuple rows))"
    by (simp only: compute_rank_def rank_loop_noc)
  then show ?thesis by simp
qed

lemma add_eu_row_has_eu: "ascii ''EU27'' \<in> noc ` set (add_eu_row rows ms)"
proof -
  have "noc (last (add_eu_row rows ms)) = ascii ''EU27''"
    by (simp add: add_eu_row_eq eu_row_def)
  moreover have "last (add_eu_row rows ms) \<in> set (add_eu_row rows ms)"
    by (rule last_in_set) (simp add: add_eu_row_eq)
  ultimately show ?thesis by (metis imageI)
qed

text \<open>
  C5. With A (1,0,0) and B (0,1,0) members and C (5,0,0) not, \<open>add_eu_row\<close> appends
  one row with gold 1, silver 1, bronze 0 and total 2 and marks exactly A and B as
  members. In the run the aggregate is added before the ranking pass: the rows written
  are \<open>compute_rank\<close> of the rows with the aggregate row, every one of them has a rank,
  and the aggregate row is among them; in the example it takes rank 2, behind C and
  ahead of A and B.
\<close>

theorem aggregate_before_rank:
  "add_eu_row [ex_medals ''A'' 1 0 0 1, ex_medals ''B'' 0 1 0 1, ex_medals ''C'' 5 0 0 5]
       (load_eu_members ex_members_file) =
     [(ex_medals ''A'' 1 0 0 1)\<lparr>is_eu := Some True\<rparr>, (ex_medals ''B'' 0 1 0 1)\<lparr>is_eu := Some True\<rparr>,
      (ex_medals ''C'' 5 0 0 5)\<lparr>is_eu := Some False\<rparr>, eu_row 1 1 0] \<and>
   gold (eu_row 1 1 0) = 1 \<and> silver (eu_row 1 1 0) = 1 \<and> bronze (eu_row 1 1 0) = 0 \<and>
   total (eu_row 1 1 0) = 2 \<and>
   compute_rank
     (add_eu_row [ex_medals ''A'' 1 0 0 1, ex_medals ''B'' 0 1 0 1, ex_medals ''C'' 5 0 0 5]
        (load_eu_members ex_members_file)) =
     [(ex_medals ''C'' 5 0 0 5)\<lparr>is_eu := Some False, rank := Some 1\<rparr>,
      (eu_row 1 1 0)\<lparr>rank := Some 2\<rparr>,
      (ex_medals ''A'' 1 0 0 1)\<lparr>is_eu := Some True, rank := Some 3\<rparr>,
      (ex_medals ''B'' 0 1 0 1)\<lparr>is_eu := Some True, rank := Some 4\<rparr>] \<and>
   (ioc_codes w = Inr (c2n, n2c) \<and> parse_medal_table (unicode w) (pycountry w) df n2c c2n = Inr (rows, []) \<longrightarrow>
      medals_csv (disk_after (update w m hs (Some df))) =
        Some (compute_rank (add_eu_row rows (load_eu_members (eu_members_json w)))) \<and>
      map_option p_rows (medals_json (disk_after (update w m hs (Some df)))) =
        Some (compute_rank (add_eu_row rows (load_eu_members (eu_members_json w))))) \<and>
   (\<forall>r \<in> set (compute_rank (add_eu_row rows ms)). \<exists>k\<ge>1. rank r = Some k) \<and>
   (\<exists>r \<in> set (compute_rank (add_eu_row rows ms)). noc r = ascii ''EU27'')"
proof -
  have eu: "gold (eu_row 1 1 0) = 1 \<and> silver (eu_row 1 1 0) = 1 \<and> bronze (eu_row 1 1 0) = 0 \<and>
      total (eu_row 1 1 0) = 2"
    by (simp add: eu_row_def)
  have "ascii ''EU27'' \<in> noc ` set (compute_rank (add_eu_row rows ms))"
    unfolding compute_rank_nocs by (rule add_eu_row_has_eu)
  then have ex: "\<exists>r \<in> set (compute_rank (add_eu_row rows ms)). noc r = ascii ''EU27''"
    by (auto simp: image_iff)
  show ?thesis
    using ex_add ex_rank eu ex update_success(2,3) [of w c2n n2c df rows m hs]
      compute_rank_ranked [of _ "add_eu_row rows ms"]
    by (simp only: ex_add) blast
qed

lemma ex_world_fields:
  "ioc_codes ex_world = Inr (Map.empty, Map.empty)" "unicode ex_world = latin1_ucd"
  "pycountry ex_world = no_fuzzy" "eu_members_json ex_world = ex_members_file"
  "fetched ex_world = Inr (ex_headers, Some ex_table)" "\<not> force ex_world"
  "disk ex_world = \<lparr> medals_csv = None, medals_json = None, meta_json = None \<rparr>"
  by (simp_all add: ex_world_def)

lemma ex_pipeline:
  "compute_rank (add_eu_row
      [\<lparr> rank = None, country = ascii ''A'', noc = ascii ''AAA'', iso2 = None, flag_url = None,
         gold = 1, silver = 1, bronze = 0, total = 2, is_eu = None \<rparr>] (load_eu_members ex_members_file)) =
     [\<lparr> rank = Some 1, country = ascii ''A'', noc = ascii ''AAA'', iso2 = None, flag_url = None,
        gold = 1, silver = 1, bronze = 0, total = 2, is_eu = Some False \<rparr>,
      (eu_row 0 0 0)\<lparr>rank := Some 2\<rparr>]"
proof -
  have "ascii ''AAA'' \<notin> eu_nocs_of (load_eu_members ex_members_file)"
    by (simp add: ex_nocs) (simp add: ascii_def)
  then have "add_eu_row
      [\<lparr> rank = None, country = ascii ''A'', noc = ascii ''AAA'', iso2 = None, flag_url = None,
         gold = 1, silver = 1, bronze = 0, total = 2, is_eu = None \<rparr>] (load_eu_members ex_members_file) =
     [\<lparr> rank = None, country = ascii ''A'', noc = ascii ''AAA'', iso2 = None, flag_url = None,
        gold = 1, silver = 1, bronze = 0, total = 2, is_eu = Some False \<rparr>, eu_row 0 0 0]"
    by (simp add: add_eu_row_eq)
  then show ?thesis
    by (simp add: compute_rank_def sort_tuple_def medal_tuple_def Let_def eu_row_def)
qed

theorem aggregate_before_rank_witness:
  "ioc_codes ex_world = Inr (Map.empty, Map.empty) \<and>
   parse_medal_table (unicode ex_world) (pycountry ex_world) ex_table Map.empty Map.empty =
     Inr ([\<lparr> rank = None, country = ascii ''A'', noc = ascii ''AAA'', iso2 = None, flag_url = None,
             gold = 1, silver = 1, bronze = 0, total = 2, is_eu = None \<rparr>], []) \<and>
   medals_csv (disk_after (update ex_world default_meta ex_headers (Some ex_table))) =
     Some [\<lparr> rank = Some 1, country = ascii ''A'', noc = ascii ''AAA'', iso2 = None, flag_url = None,
             gold = 1, silver = 1, bronze = 0, total = 2, is_eu = Some False \<rparr>,
           (eu_row 0 0 0)\<lparr>rank := Some 2\<rparr>]"
  using aggregate_before_rank [where w = ex_world and ?c2n = Map.empty and ?n2c = Map.empty
      and df = ex_table and m = default_meta and hs = ex_headers and ms = "[]" and rows =
        "[\<lparr> rank = None, country = ascii ''A'', noc = ascii ''AAA'', iso2 = None, flag_url = None,
           gold = 1, silver = 1, bronze = 0, total = 2, is_eu = None \<rparr>]"]
  by (simp add: ex_world_fields ex_table_parse ex_pipeline)

section \<open>Facts about the run\<close>

lemma main_no_change_etag:
  assumes "fetched w = Inr (hs, html)" "\<not> force w" "truthy (ETag hs)" "last_etag (load_meta (disk w)) = ETag hs"
  shows "main w = \<lparr>outcome = Returned 0, printed = [ascii ''No changes detected (ETag).''], disk_after = disk w\<rparr>"
  using assms by (simp add: main_def Let_def)

lemma main_forced:
  assumes "fetched w = Inr (hs, html)" "force w"
  shows "main w = update w (load_meta (disk w)) hs html"
  using assms by (simp add: main_def Let_def)


lemma update_printed:
  "printed (update w m hs html) = [] \<or> printed (update w m hs html) = [ascii ''Medal table updated.'']"
  by (simp add: update_def Let_def split: sum.splits option.splits prod.splits)

lemma messages_differ: "[ascii ''Medal table updated.''] \<noteq> [ascii ''No changes detected (ETag).'']"
  "[] \<noteq> [ascii ''No changes detected (ETag).'']"
  by (simp_all add: ascii_def)

text \<open>
  C7. When the fetched ETag is present (a non-empty string) and equal to the
  \<open>last_etag\<close> of the stored metadata, the run without the force flag returns 0,
  prints "No changes detected (ETag)." and leaves the three files as they were; with
  the force flag the check is skipped and the run is the update itself, which never
  prints that message. \<open>etag_check.py\<close> reports \<open>changed=false\<close> on the same
  input.
\<close>

theorem etag_short_circuit:
  assumes "fetched w = Inr (hs, html)"
    and "ETag hs = Some e" and "e \<noteq> []"
    and "meta_json (disk w) = Some m" and "last_etag m = Some e"
  shows "(\<not> force w \<longrightarrow>
            outcome (main w) = Returned 0 \<and>
            printed (main w) = [ascii ''No changes detected (ETag).''] \<and>
            disk_after (main w) = disk w) \<and>
         (force w \<longrightarrow>
            main w = update w m hs html \<and>
            printed (main w) \<noteq> [ascii ''No changes detected (ETag).'']) \<and>
         \<not> etag_check_changed (Some m) hs"
proof -
  have lm: "load_meta (disk w) = m"
    using assms(4) by (simp add: load_meta_def)
  have t: "truthy (ETag hs)" "last_etag (load_meta (disk w)) = ETag hs"
    using assms(2,3,5) by (simp_all add: truthy_simps lm)
  have a: "\<not> force w \<Longrightarrow> main w = \<lparr>outcome = Returned 0, printed = [ascii ''No changes detected (ETag).''],
       disk_after = disk w\<rparr>"
    using main_no_change_etag [OF assms(1) _ t] by simp
  have b: "force w \<Longrightarrow> main w = update w m hs html"
    using main_forced [OF assms(1)] by (simp add: lm)
  have c: "printed (update w m hs html) \<noteq> [ascii ''No changes detected (ETag).'']"
    using update_printed [of w m hs html] messages_differ by metis
  have d: "\<not> etag_check_changed (Some m) hs"
    using assms(2,3,5) by (simp add: etag_check_changed_def Let_def truthy_simps)
  show ?thesis
    using a b c d by auto
qed

lemma ex_world_stored_fields:
  "ioc_codes ex_world_stored = Inr (Map.empty, Map.empty)" "unicode ex_world_stored = latin1_ucd"
  "pycountry ex_world_stored = no_fuzzy" "eu_members_json ex_world_stored = ex_members_file"
  "fetched ex_world_stored = Inr (ex_headers, Some ex_table)" "\<not> force ex_world_stored"
  "disk ex_world_stored = \<lparr> medals_csv = None, medals_json = None, meta_json = Some ex_meta \<rparr>"
  by (simp_all add: ex_world_stored_def ex_world_def)

lemma ex_etag: "ETag ex_headers = Some (ascii ''W/1'')" "ascii ''W/1'' \<noteq> []"
  "last_etag ex_meta = Some (ascii ''W/1'')"
  by (simp_all add: ex_headers_def ex_meta_def ascii_def)

theorem etag_short_circuit_witness:
  "fetched ex_world_stored = Inr (ex_headers, Some ex_table) \<and>
   ETag ex_headers = Some (ascii ''W/1'') \<and> ascii ''W/1'' \<noteq> [] \<and>
   meta_json (disk ex_world_stored) = Some ex_meta \<and> last_etag ex_meta = Some (ascii ''W/1'') \<and>
   \<not> force ex_world_stored \<and>
   outcome (main ex_world_stored) = Returned 0 \<and>
   printed (main ex_world_stored) = [ascii ''No changes detected (ETag).''] \<and>
   disk_after (main ex_world_stored) = disk ex_world_stored \<and>
   force (ex_world_stored\<lparr>force := True\<rparr>) \<and>
   outcome (main (ex_world_stored\<lparr>force := True\<rparr>)) = Returned 0 \<and>
   medals_csv (disk_after (main (ex_world_stored\<lparr>force := True\<rparr>))) =
     Some [\<lparr> rank = Some 1, country = ascii ''A'', noc = ascii ''AAA'', iso2 = None, flag_url = None,
             gold = 1, silver = 1, bronze = 0, total = 2, is_eu = Some False \<rparr>,
           (eu_row 0 0 0)\<lparr>rank := Some 2\<rparr>]"
proof -
  let ?w = "ex_world_stored\<lparr>force := True\<rparr>"
  have f: "fetched ?w = Inr (ex_headers, Some ex_table)" "meta_json (disk ?w) = Some ex_meta"
    "ioc_codes ?w = Inr (Map.empty, Map.empty)" "force ?w"
    by (simp_all add: ex_world_stored_fields)
  have p: "parse_medal_table (unicode ?w) (pycountry ?w) ex_table Map.empty Map.empty =
     Inr ([\<lparr> rank = None, country = ascii ''A'', noc = ascii ''AAA'', iso2 = None, flag_url = None,
             gold = 1, silver = 1, bronze = 0, total = 2, is_eu = None \<rparr>], [])"
    by (simp add: ex_world_stored_fields ex_table_parse)
  have m: "main ?w = update ?w ex_meta ex_headers (Some ex_table)"
    using etag_short_circuit [OF f(1) ex_etag(1) ex_etag(2) f(2) ex_etag(3)] f(4) by simp
  have u: "outcome (update ?w ex_meta ex_headers (Some ex_table)) = Returned 0"
    "medals_csv (disk_after (update ?w ex_meta ex_headers (Some ex_table))) =
       Some [\<lparr> rank = Some 1, country = ascii ''A'', noc = ascii ''AAA'', iso2 = None, flag_url = None,
             gold = 1, silver = 1, bronze = 0, total = 2, is_eu = Some False \<rparr>,
           (eu_row 0 0 0)\<lparr>rank := Some 2\<rparr>]"
    using update_success(1,2) [OF f(3) p, of ex_meta ex_headers]
    by (simp_all add: ex_world_stored_fields ex_pipeline)
  show ?thesis
    using etag_short_circuit [OF ex_world_stored_fields(5) ex_etag(1) ex_etag(2) _ ex_etag(3)] m u
    by (simp add: ex_world_stored_fields ex_etag)
qed

section \<open>Facts about ISO codes and flags\<close>

lemma iso2_overrides_nonempty: "map_of ISO2_OVERRIDES name = Some code \<Longrightarrow> code \<noteq> []"
proof -
  assume "map_of ISO2_OVERRIDES name = Some code"
  then have "(name, code) \<in> set ISO2_OVERRIDES" by (rule map_of_SomeD)
  then have "code \<in> snd ` set ISO2_OVERRIDES" by (metis imageI snd_conv)
  then show ?thesis
    by (simp add: ISO2_OVERRIDES_def) (auto simp: ascii_def)
qed

lemma iso2_from_country_nonempty:
  assumes "\<forall>name code. fuzzy name = Some code \<longrightarrow> code \<noteq> [] \<and> (\<forall>c\<in>set code. c < 128)"
    and "iso2_from_country fuzzy name = Some code"
  shows "code \<noteq> []"
  using assms iso2_overrides_nonempty [of name code]
  by (auto simp: iso2_from_country_def split: if_splits option.splits)

lemma parse_row_flag:
  assumes "parse_row u fuzzy cs n2c c2n row = Parsed r"
  shows "iso2 r = iso2_from_country fuzzy (country r)"
    and "flag_url r = (if truthy (iso2 r) then map_option (\<lambda>c. flag_template (lower c)) (iso2 r) else None)"
proof -
  from parse_row_Parsed [OF assms] obtain g s b t where
    br: "build_row u fuzzy cs n2c c2n row (name_override (col_text row (nation_col cs)))
             (col_text row (noc_col cs)) g s b t = Parsed r"
    by blast
  show "iso2 r = iso2_from_country fuzzy (country r)"
    by (rule build_row_Parsed(6) [OF br])
  show "flag_url r = (if truthy (iso2 r) then map_option (\<lambda>c. flag_template (lower c)) (iso2 r) else None)"
    by (rule build_row_Parsed(7) [OF br])
qed

lemma parse_row_flag_ok:
  assumes "\<forall>name code. fuzzy name = Some code \<longrightarrow> code \<noteq> [] \<and> (\<forall>c\<in>set code. c < 128)"
    and "parse_row u fuzzy cs n2c c2n row = Parsed r"
  shows "flag_url r = map_option (\<lambda>c. flag_template (lower c)) (iso2 r)"
proof (cases "iso2 r")
  case None
  with parse_row_flag(2) [OF assms(2)] show ?thesis by (simp add: truthy_simps)
next
  case (Some code)
  with parse_row_flag(1) [OF assms(2)] have "iso2_from_country fuzzy (country r) = Some code" by simp
  with assms(1) have "code \<noteq> []" by (rule iso2_from_country_nonempty)
  with Some parse_row_flag(2) [OF assms(2)] show ?thesis by (simp add: truthy_simps)
qed

lemma eu_row_flag: "flag_url (eu_row g s b) = map_option (\<lambda>c. flag_template (lower c)) (iso2 (eu_row g s b))"
  by (simp add: eu_row_def flag_template_def lower_def lower_char_def is_upper_def ascii_def)

lemma rank_loop_flag:
  "map (\<lambda>r. (iso2 r, flag_url r)) (rank_loop idx rnk prev xs) = map (\<lambda>r. (iso2 r, flag_url r)) xs"
  by (induction xs arbitrary: idx rnk prev) (simp_all add: Let_def)

lemma compute_rank_flag:
  "(\<lambda>r. (iso2 r, flag_url r)) ` set (compute_rank rows) = (\<lambda>r. (iso2 r, flag_url r)) ` set rows"
proof -
  have "set (map (\<lambda>r. (iso2 r, flag_url r)) (compute_rank rows)) =
        set (map (\<lambda>r. (iso2 r, flag_url r)) (sort_key sort_tuple rows))"
    by (simp only: compute_rank_def rank_loop_flag)
  then show ?thesis by simp
qed

lemma add_eu_row_flag:
  assumes "r \<in> set (add_eu_row rows ms)"
  shows "(\<exists>g s b. r = eu_row g s b) \<or> (\<exists>r0\<in>set rows. iso2 r = iso2 r0 \<and> flag_url r = flag_url r0)"
  using assms by (auto simp: add_eu_row_eq)

lemma compute_rank_flag_row:
  assumes "r \<in> set (compute_rank rows)"
  shows "\<exists>r0\<in>set rows. iso2 r = iso2 r0 \<and> flag_url r = flag_url r0"
proof -
  from assms have "(iso2 r, flag_url r) \<in> (\<lambda>r. (iso2 r, flag_url r)) ` set (compute_rank rows)"
    by (rule imageI)
  then have "(iso2 r, flag_url r) \<in> (\<lambda>r. (iso2 r, flag_url r)) ` set rows"
    by (simp only: compute_rank_flag)
  then obtain r0 where "r0 \<in> set rows" and "(iso2 r, flag_url r) = (iso2 r0, flag_url r0)"
    by blast
  then show ?thesis by blast
qed

text \<open>
  C9. In every row of the output (the rows of the table with the aggregate row, after
  ranking) \<open>flag_url\<close> is present exactly when \<open>iso2\<close> is, and is then the flag
  template with the lowercased code. The ISO database is a parameter; its codes are
  taken to be non-empty ASCII strings, as alpha-2 codes are.
\<close>

theorem flag_iff_iso2:
  assumes "\<forall>name code. fuzzy name = Some code \<longrightarrow> code \<noteq> [] \<and> (\<forall>c\<in>set code. c < 128)"
    and "parse_medal_table u fuzzy df n2c c2n = Inr (rows, um)"
  shows "\<forall>r \<in> set (compute_rank (add_eu_row rows ms)).
           (flag_url r = None \<longleftrightarrow> iso2 r = None) \<and>
           (\<forall>code. iso2 r = Some code \<longrightarrow> flag_url r = Some (flag_template (lower code)))"
proof
  fix r assume "r \<in> set (compute_rank (add_eu_row rows ms))"
  then obtain r1 where r1: "r1 \<in> set (add_eu_row rows ms)"
    and eq1: "iso2 r = iso2 r1" "flag_url r = flag_url r1"
    using compute_rank_flag_row by blast
  have "flag_url r1 = map_option (\<lambda>c. flag_template (lower c)) (iso2 r1)"
    using add_eu_row_flag [OF r1]
  proof
    assume "\<exists>g s b. r1 = eu_row g s b"
    then obtain g s b where "r1 = eu_row g s b" by blast
    then show ?thesis by (simp only: eu_row_flag)
  next
    assume "\<exists>r0\<in>set rows. iso2 r1 = iso2 r0 \<and> flag_url r1 = flag_url r0"
    then obtain r0 where r0: "r0 \<in> set rows"
      and eq0: "iso2 r1 = iso2 r0" "flag_url r1 = flag_url r0" by blast
    from r0 obtain row where "parse_row u fuzzy (cols df) n2c c2n row = Parsed r0"
      unfolding parse_medal_table_rows [OF assms(2)] by blast
    with assms(1) have "flag_url r0 = map_option (\<lambda>c. flag_template (lower c)) (iso2 r0)"
      by (rule parse_row_flag_ok)
    then show ?thesis by (simp only: eq0)
  qed
  then have f: "flag_url r = map_option (\<lambda>c. flag_template (lower c)) (iso2 r)"
    by (simp only: eq1)
  show "(flag_url r = None \<longleftrightarrow> iso2 r = None) \<and>
           (\<forall>code. iso2 r = Some code \<longrightarrow> flag_url r = Some (flag_template (lower code)))"
    unfolding f by (cases "iso2 r") simp_all
qed

lemma ex_fuzzy_ok:
  "\<forall>name code. ex_fuzzy name = Some code \<longrightarrow> code \<noteq> [] \<and> (\<forall>c\<in>set code. c < 128)"
  by (simp add: ex_fuzzy_def ascii_def)

lemma iso2_A_fuzzy: "iso2_from_country ex_fuzzy (ascii ''A'') = Some (ascii ''AQ'')"
  by (simp add: iso2_from_country_def ISO2_OVERRIDES_def Turkiye_def Cote_dIvoire_def ex_fuzzy_def ascii_def)

lemma flag_AQ: "flag_template (lower (ascii ''AQ'')) = ascii ''https://flagcdn.com/w40/aq.png''"
  "ascii ''AQ'' \<noteq> []"
  by (simp_all add: flag_template_def lower_def lower_char_def is_upper_def ascii_def)

lemma ex_fuzzy_table:
  "parse_medal_table latin1_ucd ex_fuzzy ex_table Map.empty Map.empty =
     Inr ([\<lparr> rank = None, country = ascii ''A'', noc = ascii ''AAA'', iso2 = Some (ascii ''AQ''),
             flag_url = Some (ascii ''https://flagcdn.com/w40/aq.png''),
             gold = 1, silver = 1, bronze = 0, total = 2, is_eu = None \<rparr>], [])"
proof -
  have a: "parse_row latin1_ucd ex_fuzzy ex_cols Map.empty Map.empty ex_A =
     Parsed \<lparr> rank = None, country = ascii ''A'', noc = ascii ''AAA'', iso2 = Some (ascii ''AQ''),
        flag_url = Some (ascii ''https://flagcdn.com/w40/aq.png''),
        gold = 1, silver = 1, bronze = 0, total = 2, is_eu = None \<rparr>"
    unfolding ex_A_def
    by (subst ex_parse_A_row [where gv = 1 and sv = 1 and bv = 0 and tv = 0])
       (simp_all add: cell_str_values to_int_values iso2_A_fuzzy flag_AQ truthy_simps)
  show ?thesis
    using a ex_parse_Totals [of ex_fuzzy]
    by (simp add: parse_medal_table_def ex_table_def)
qed

lemma ex_fuzzy_output:
  "compute_rank (add_eu_row
     [\<lparr> rank = None, country = ascii ''A'', noc = ascii ''AAA'', iso2 = Some (ascii ''AQ''),
        flag_url = Some (ascii ''https://flagcdn.com/w40/aq.png''),
        gold = 1, silver = 1, bronze = 0, total = 2, is_eu = None \<rparr>] []) =
     [\<lparr> rank = Some 1, country = ascii ''A'', noc = ascii ''AAA'', iso2 = Some (ascii ''AQ''),
        flag_url = Some (ascii ''https://flagcdn.com/w40/aq.png''),
        gold = 1, silver = 1, bronze = 0, total = 2, is_eu = Some False \<rparr>,
      (eu_row 0 0 0)\<lparr>rank := Some 2\<rparr>]"
  by (simp add: add_eu_row_no_members)
     (simp add: compute_rank_def sort_tuple_def medal_tuple_def Let_def eu_row_def)

lemma ex_plain_output:
  "compute_rank (add_eu_row
     [\<lparr> rank = None, country = ascii ''A'', noc = ascii ''AAA'', iso2 = None, flag_url = None,
        gold = 1, silver = 1, bronze = 0, total = 2, is_eu = None \<rparr>] []) =
     [\<lparr> rank = Some 1, country = ascii ''A'', noc = ascii ''AAA'', iso2 = None, flag_url = None,
        gold = 1, silver = 1, bronze = 0, total = 2, is_eu = Some False \<rparr>,
      (eu_row 0 0 0)\<lparr>rank := Some 2\<rparr>]"
  by (simp add: add_eu_row_no_members)
     (simp add: compute_rank_def sort_tuple_def medal_tuple_def Let_def eu_row_def)

theorem flag_iff_iso2_witness:
  "ex_fuzzy (ascii ''A'') = Some (ascii ''AQ'') \<and>
   parse_medal_table latin1_ucd ex_fuzzy ex_table Map.empty Map.empty =
     Inr ([\<lparr> rank = None, country = ascii ''A'', noc = ascii ''AAA'', iso2 = Some (ascii ''AQ''),
             flag_url = Some (ascii ''https://flagcdn.com/w40/aq.png''),
             gold = 1, silver = 1, bronze = 0, total = 2, is_eu = None \<rparr>], []) \<and>
   map (\<lambda>r. (iso2 r, flag_url r))
     (compute_rank (add_eu_row
        [\<lparr> rank = None, country = ascii ''A'', noc = ascii ''AAA'', iso2 = Some (ascii ''AQ''),
           flag_url = Some (ascii ''https://flagcdn.com/w40/aq.png''),
           gold = 1, silver = 1, bronze = 0, total = 2, is_eu = None \<rparr>] [])) =
     [(Some (ascii ''AQ''), Some (ascii ''https://flagcdn.com/w40/aq.png'')),
      (Some (ascii ''EU''), Some (ascii ''https://flagcdn.com/w40/eu.png''))] \<and>
   flag_template (lower (ascii ''AQ'')) = ascii ''https://flagcdn.com/w40/aq.png'' \<and>
   parse_medal_table latin1_ucd no_fuzzy ex_table Map.empty Map.empty =
     Inr ([\<lparr> rank = None, country = ascii ''A'', noc = ascii ''AAA'', iso2 = None, flag_url = None,
             gold = 1, silver = 1, bronze = 0, total = 2, is_eu = None \<rparr>], []) \<and>
   map (\<lambda>r. (iso2 r, flag_url r))
     (compute_rank (add_eu_row
        [\<lparr> rank = None, country = ascii ''A'', noc = ascii ''AAA'', iso2 = None, flag_url = None,
           gold = 1, silver = 1, bronze = 0, total = 2, is_eu = None \<rparr>] [])) =
     [(None, None), (Some (ascii ''EU''), Some (ascii ''https://flagcdn.com/w40/eu.png''))]"
proof -
  have n: "\<forall>name code. no_fuzzy name = Some code \<longrightarrow> code \<noteq> [] \<and> (\<forall>c\<in>set code. c < 128)"
    by (simp add: no_fuzzy_def)
  note a = flag_iff_iso2 [OF ex_fuzzy_ok ex_fuzzy_table, of "[]"]
  note b = flag_iff_iso2 [OF n ex_table_parse, of "[]"]
  show ?thesis
    using a b
    by (simp add: ex_fuzzy_output ex_plain_output ex_fuzzy_table ex_table_parse flag_AQ eu_row_def)
       (simp add: ex_fuzzy_def)
qed

section \<open>Normal forms of the normaliser\<close>

lemma special_chars:
  "is_space SP" "is_space NBSP" "is_space LF" "NBSP \<noteq> SP" "LF \<noteq> SP"
  "\<not> is_space LBRACK" "\<not> is_space RBRACK" "\<not> is_footnote_glyph SP"
  "\<not> is_footnote_glyph LBRACK" "\<not> is_footnote_glyph RBRACK"
  "SP \<noteq> LBRACK" "SP \<noteq> RBRACK" "NBSP \<noteq> LBRACK" "NBSP \<noteq> RBRACK" "LBRACK \<noteq> RBRACK"
  "LBRACK \<noteq> SP" "RBRACK \<noteq> SP" "LBRACK \<noteq> NBSP" "RBRACK \<noteq> NBSP" "RBRACK \<noteq> LBRACK"
  "\<not> is_space DAGGER" "\<not> is_space DDAGGER" "\<not> is_space STAR"
  by (simp_all add: is_space_def is_footnote_glyph_def SP_def NBSP_def LF_def LBRACK_def RBRACK_def
      DAGGER_def DDAGGER_def STAR_def)

subsection \<open>Whitespace\<close>

lemma sub_spaces_fixed:
  "sub_spaces False (sub_spaces b z) = sub_spaces b z \<and> sub_spaces True (sub_spaces True z) = sub_spaces True z"
  by (induction z arbitrary: b) (auto simp: special_chars)

lemma spaced_ok_sub_spaces: "spaced_ok (sub_spaces b z)"
proof -
  have "spaced_ok (sub_spaces b z) \<and> (sub_spaces True z = [] \<or> \<not> is_space (hd (sub_spaces True z)))"
  proof (induction z arbitrary: b)
    case Nil
    show ?case by simp
  next
    case (Cons c z)
    show ?case
    proof (cases "is_space c")
      case True
      from Cons [of True] have t: "spaced_ok (sub_spaces True z)"
        "sub_spaces True z = [] \<or> \<not> is_space (hd (sub_spaces True z))" by simp_all
      have "spaced_ok (SP # sub_spaces True z)"
        using t by (cases "sub_spaces True z") (simp_all add: special_chars)
      with True t show ?thesis by simp
    next
      case False
      from Cons [of False] have t: "spaced_ok (sub_spaces False z)" by simp
      have "spaced_ok (c # sub_spaces False z)"
        using t False by (cases "sub_spaces False z") simp_all
      with False show ?thesis by simp
    qed
  qed
  then show ?thesis by simp
qed

lemma spaced_ok_fixed: "spaced_ok u \<Longrightarrow> sub_spaces False u = u"
proof (induction u rule: spaced_ok.induct)
  case 1
  show ?case by simp
next
  case (2 c)
  then show ?case by auto
next
  case (3 a b r)
  then show ?case by auto
qed

lemma spaced_ok_tl: "spaced_ok (c # cs) \<Longrightarrow> spaced_ok cs"
  by (cases cs) simp_all

lemma spaced_ok_dropWhile: "spaced_ok u \<Longrightarrow> spaced_ok (dropWhile P u)"
  by (induction u) (auto dest: spaced_ok_tl)

lemma spaced_ok_prefix: "spaced_ok (xs @ ys) \<Longrightarrow> spaced_ok xs"
proof (induction xs rule: spaced_ok.induct)
  case 1
  show ?case by simp
next
  case (2 c)
  then show ?case by (cases ys) auto
next
  case (3 a b r)
  then show ?case by auto
qed

lemma strip_prefix_suffix: "\<exists>ps ss. s = ps @ strip s @ ss"
proof -
  have 1: "s = takeWhile is_space s @ dropWhile is_space s" by simp
  have "rev (dropWhile is_space s) =
          takeWhile is_space (rev (dropWhile is_space s)) @ dropWhile is_space (rev (dropWhile is_space s))"
    by simp
  then have "dropWhile is_space s =
      rev (dropWhile is_space (rev (dropWhile is_space s))) @ rev (takeWhile is_space (rev (dropWhile is_space s)))"
    by (metis rev_append rev_rev_ident)
  with 1 show ?thesis
    unfolding strip_def by metis
qed

lemma spaced_ok_strip: "spaced_ok u \<Longrightarrow> spaced_ok (strip u)"
proof -
  assume u: "spaced_ok u"
  have 2: "dropWhile is_space u =
      strip u @ rev (takeWhile is_space (rev (dropWhile is_space u)))"
    unfolding strip_def by (metis rev_append rev_rev_ident takeWhile_dropWhile_id)
  from u have "spaced_ok (dropWhile is_space u)" by (rule spaced_ok_dropWhile)
  with 2 show ?thesis by (metis spaced_ok_prefix)
qed

lemma trimmed_strip: "trimmed (strip s)"
proof -
  define t where "t = dropWhile is_space (rev (dropWhile is_space s))"
  have hd_t: "t \<noteq> [] \<Longrightarrow> \<not> is_space (hd t)"
    unfolding t_def by (rule hd_dropWhile)
  have last_t: "\<not> is_space (last t)" if "t \<noteq> []"
  proof -
    have "dropWhile is_space s \<noteq> []"
    proof
      assume e: "dropWhile is_space s = []"
      have "t = []" unfolding t_def e by simp
      with that show False by simp
    qed
    then have h: "\<not> is_space (hd (dropWhile is_space s))" by (rule hd_dropWhile)
    have "\<exists>ps. rev (dropWhile is_space s) = ps @ t"
      unfolding t_def by (metis takeWhile_dropWhile_id)
    then obtain ps where "rev (dropWhile is_space s) = ps @ t" by blast
    with that have "last t = last (rev (dropWhile is_space s))" by simp
    also have "\<dots> = hd (dropWhile is_space s)"
      using \<open>dropWhile is_space s \<noteq> []\<close> by (simp add: last_rev)
    finally show ?thesis using h by simp
  qed
  have "strip s = rev t" by (simp add: strip_def t_def)
  then show ?thesis
    using hd_t last_t by (cases "t = []") (simp_all add: trimmed_def hd_rev last_rev)
qed

lemma trimmed_fixed: "trimmed s \<Longrightarrow> strip s = s"
proof (cases "s = []")
  case True
  then show ?thesis by (simp add: strip_def)
next
  case False
  assume "trimmed s"
  with False have h: "\<not> is_space (hd s)" and l: "\<not> is_space (last s)" by (simp_all add: trimmed_def)
  from h False have 1: "dropWhile is_space s = s" by (cases s) simp_all
  from l False have "\<not> is_space (hd (rev s))" by (simp add: hd_rev)
  with False have 2: "dropWhile is_space (rev s) = rev s" by (cases "rev s") simp_all
  show ?thesis by (simp add: strip_def 1 2)
qed

subsection \<open>Bracketed references\<close>

lemma find_close_set: "find_close cs = Some rest \<Longrightarrow> set rest \<subseteq> set cs"
  by (induction cs) (auto split: if_splits)

lemma find_close_Some_rbrack: "find_close cs = Some rest \<Longrightarrow> RBRACK \<in> set cs"
  by (induction cs) (auto split: if_splits)

lemma find_close_None: "LF \<notin> set cs \<Longrightarrow> find_close cs = None \<Longrightarrow> RBRACK \<notin> set cs"
  by (induction cs) (auto split: if_splits)

lemma set_sub_refs: "set (sub_refs s) \<subseteq> set s"
proof (induction s rule: sub_refs.induct)
  case 1
  show ?case by simp
next
  case (2 c cs)
  show ?case
  proof (cases "c = LBRACK")
    case False
    with 2 show ?thesis by auto
  next
    case True
    show ?thesis
    proof (cases "find_close cs")
      case None
      with True 2 show ?thesis by auto
    next
      case (Some rest)
      with True 2 have "set (sub_refs rest) \<subseteq> set rest" by simp
      with find_close_set [OF Some] True Some show ?thesis by auto
    qed
  qed
qed

lemma open_sub_refs: "LF \<notin> set s \<Longrightarrow> \<not> closed_ref (sub_refs s)"
proof (induction s rule: sub_refs.induct)
  case 1
  show ?case by simp
next
  case (2 c cs)
  from "2.prems" have lf: "LF \<notin> set cs" by simp
  show ?case
  proof (cases "c = LBRACK")
    case False
    with 2 lf show ?thesis by simp
  next
    case True
    show ?thesis
    proof (cases "find_close cs")
      case None
      from find_close_None [OF lf None] set_sub_refs [of cs] have "RBRACK \<notin> set (sub_refs cs)" by blast
      moreover from "2.IH"(1) [OF True None lf] have "\<not> closed_ref (sub_refs cs)" .
      ultimately show ?thesis using True None by simp
    next
      case (Some rest)
      from find_close_set [OF Some] lf have "LF \<notin> set rest" by blast
      with "2.IH"(2) [OF True Some] have "\<not> closed_ref (sub_refs rest)" by simp
      with True Some show ?thesis by simp
    qed
  qed
qed

lemma open_fixed: "\<not> closed_ref s \<Longrightarrow> sub_refs s = s"
proof (induction s)
  case Nil
  show ?case by simp
next
  case (Cons c cs)
  then have ih: "sub_refs cs = cs" by simp
  show ?case
  proof (cases "c = LBRACK")
    case False
    with ih show ?thesis by simp
  next
    case True
    with Cons.prems have "RBRACK \<notin> set cs" by simp
    then have "find_close cs = None"
      using find_close_Some_rbrack [of cs] by (cases "find_close cs") auto
    with True ih show ?thesis by simp
  qed
qed

lemma closed_ref_brackets: "closed_ref (brackets s) = closed_ref s"
  by (induction s) (auto simp: brackets_def)

lemma brackets_tail:
  "brackets (replace_nbsp s) = brackets s"
  "brackets (remove_glyphs s) = brackets s"
  "brackets (sub_spaces b s) = brackets s"
  "brackets (strip s) = brackets s"
proof -
  show "brackets (replace_nbsp s) = brackets s"
    by (induction s) (auto simp: brackets_def replace_nbsp_def special_chars)
  show "brackets (remove_glyphs s) = brackets s"
    by (induction s) (auto simp: brackets_def remove_glyphs_def special_chars)
  show "brackets (sub_spaces b s) = brackets s"
    by (induction s arbitrary: b) (auto simp: brackets_def special_chars)
  have d: "brackets (dropWhile is_space t) = brackets t" for t
    by (induction t) (auto simp: brackets_def special_chars)
  have r: "brackets (rev t) = rev (brackets t)" for t
    by (simp add: brackets_def rev_filter)
  show "brackets (strip s) = brackets s"
    by (simp add: strip_def r d)
qed

lemma closed_ref_tail:
  "closed_ref (strip (sub_spaces False (remove_glyphs (replace_nbsp s)))) = closed_ref s"
proof -
  have "brackets (strip (sub_spaces False (remove_glyphs (replace_nbsp s)))) = brackets s"
    by (simp only: brackets_tail)
  then show ?thesis by (metis closed_ref_brackets)
qed

subsection \<open>What the result contains\<close>

lemma set_sub_spaces: "set (sub_spaces b s) \<subseteq> insert SP (set s)"
  by (induction s arbitrary: b) auto

lemma set_strip: "set (strip s) \<subseteq> set s"
proof -
  have "set (dropWhile is_space (rev (dropWhile is_space s))) \<subseteq> set (rev (dropWhile is_space s))"
    by (rule set_dropWhileD [THEN subsetI])
  moreover have "set (dropWhile is_space s) \<subseteq> set s"
    by (rule set_dropWhileD [THEN subsetI])
  ultimately show ?thesis by (auto simp: strip_def)
qed

lemma no_glyphs_tail:
  "c \<in> set (strip (sub_spaces False (remove_glyphs t))) \<Longrightarrow> \<not> is_footnote_glyph c"
proof -
  assume "c \<in> set (strip (sub_spaces False (remove_glyphs t)))"
  with set_strip have "c \<in> set (sub_spaces False (remove_glyphs t))" by blast
  with set_sub_spaces have "c = SP \<or> c \<in> set (remove_glyphs t)" by blast
  then show ?thesis by (auto simp: remove_glyphs_def special_chars)
qed

lemma spaced_ok_spaces: "spaced_ok s \<Longrightarrow> c \<in> set s \<Longrightarrow> is_space c \<Longrightarrow> c = SP"
  by (induction s rule: spaced_ok.induct) auto

lemma spaced_ok_adjacent: "spaced_ok s \<Longrightarrow> Suc i < length s \<Longrightarrow> \<not> (s ! i = SP \<and> s ! Suc i = SP)"
proof (induction s arbitrary: i rule: spaced_ok.induct)
  case 1
  then show ?case by simp
next
  case (2 c)
  then show ?case by simp
next
  case (3 a b r)
  show ?case
  proof (cases i)
    case 0
    with "3.prems" show ?thesis by (auto simp: special_chars)
  next
    case (Suc j)
    with "3.prems" have "spaced_ok (b # r)" "Suc j < length (b # r)" by simp_all
    with "3.IH" have "\<not> ((b # r) ! j = SP \<and> (b # r) ! Suc j = SP)" by blast
    with Suc show ?thesis by simp
  qed
qed

subsection \<open>Normal forms\<close>

lemma normalize_text_props:
  "spaced_ok (normalize_text v)" "trimmed (normalize_text v)"
  "\<forall>c\<in>set (normalize_text v). \<not> is_footnote_glyph c"
proof -
  show "spaced_ok (normalize_text v)"
    by (cases v) (simp_all add: normalize_text_def spaced_ok_strip spaced_ok_sub_spaces)
  show "trimmed (normalize_text v)"
    by (cases v) (simp_all add: normalize_text_def trimmed_strip, simp add: trimmed_def)
  show "\<forall>c\<in>set (normalize_text v). \<not> is_footnote_glyph c"
    by (cases v) (auto simp: normalize_text_def dest: no_glyphs_tail)
qed

lemma normalize_text_closed_ref:
  "closed_ref (normalize_text (Some x)) = closed_ref (sub_refs x)"
  by (simp add: normalize_text_def closed_ref_tail)

lemma normalize_text_fixed:
  assumes "\<not> closed_ref y" "spaced_ok y" "trimmed y" "\<forall>c\<in>set y. \<not> is_footnote_glyph c"
  shows "normalize_text (Some y) = y"
proof -
  have 1: "sub_refs y = y" using assms(1) by (rule open_fixed)
  have "NBSP \<notin> set y"
    using spaced_ok_spaces [OF assms(2), of NBSP] by (auto simp: special_chars)
  then have 2: "replace_nbsp y = y"
    unfolding replace_nbsp_def by (induction y) auto
  have 3: "remove_glyphs y = y"
    unfolding remove_glyphs_def using assms(4) by (simp add: filter_id_conv)
  have 4: "sub_spaces False y = y" using assms(2) by (rule spaced_ok_fixed)
  have 5: "strip y = y" using assms(3) by (rule trimmed_fixed)
  show ?thesis by (simp add: normalize_text_def 1 2 3 4 5)
qed

lemma normalize_text_idem:
  assumes "\<not> closed_ref (normalize_text (Some x))"
  shows "normalize_text (Some (normalize_text (Some x))) = normalize_text (Some x)"
  using assms normalize_text_props [of "Some x"] by (intro normalize_text_fixed) simp_all

lemma normalize_text_open: "LF \<notin> set x \<Longrightarrow> \<not> closed_ref (normalize_text (Some x))"
  by (simp add: normalize_text_closed_ref open_sub_refs)

lemma normalize_example:
  "normalize_text (Some (ascii ''United States[1]'' @ [NBSP, DAGGER])) = ascii ''United States''"
  by (simp add: norm_eval)

lemma normalize_lf_example:
  "normalize_text (Some [LBRACK, LF, RBRACK]) = [LBRACK, SP, RBRACK]"
  "normalize_text (Some [LBRACK, SP, RBRACK]) = []"
  by (simp_all add: norm_eval)

text \<open>
  The normaliser is not idempotent on every string: \<open>.\<close> does not match a line feed,
  so a \<open>[\<close> and a \<open>]\<close> with a line feed between them survive the first pass; the line
  feed becomes a space, and the second pass deletes the pair.
\<close>

theorem normalize_not_idempotent:
  "normalize_text (Some (normalize_text (Some [LBRACK, LF, RBRACK]))) \<noteq> normalize_text (Some [LBRACK, LF, RBRACK])"
  by (simp add: normalize_lf_example)

text \<open>
  C6, as amended. \<open>normalize_text\<close> is a total function, and it is idempotent on every
  string without a line feed, and more generally whenever its result has no \<open>[\<close>
  followed by a \<open>]\<close>. Its result holds no non-breaking space, no dagger, double
  dagger or asterisk, no whitespace but single spaces, none of them leading or
  trailing, and for an input without line feed no \<open>[\<close> followed by a \<open>]\<close>. The
  example of the specification normalises to \<open>United States\<close>.
\<close>

theorem normalize_idempotent_without_lf:
  "(LF \<notin> set x \<longrightarrow> normalize_text (Some (normalize_text (Some x))) = normalize_text (Some x)) \<and>
   (\<not> closed_ref (normalize_text (Some x)) \<longrightarrow>
      normalize_text (Some (normalize_text (Some x))) = normalize_text (Some x)) \<and>
   (LF \<notin> set x \<longrightarrow> \<not> closed_ref (normalize_text (Some x))) \<and>
   NBSP \<notin> set (normalize_text v) \<and> DAGGER \<notin> set (normalize_text v) \<and>
   DDAGGER \<notin> set (normalize_text v) \<and> STAR \<notin> set (normalize_text v) \<and>
   (\<forall>c\<in>set (normalize_text v). is_space c \<longrightarrow> c = SP) \<and>
   (\<forall>i. Suc i < length (normalize_text v) \<longrightarrow>
      \<not> (normalize_text v ! i = SP \<and> normalize_text v ! Suc i = SP)) \<and>
   trimmed (normalize_text v) \<and>
   normalize_text None = [] \<and>
   normalize_text (Some (ascii ''United States[1]'' @ [NBSP, DAGGER])) = ascii ''United States''"
proof -
  note p = normalize_text_props [of v]
  have a: "LF \<notin> set x \<longrightarrow> normalize_text (Some (normalize_text (Some x))) = normalize_text (Some x)"
    using normalize_text_idem [of x] normalize_text_open [of x] by blast
  have b: "\<not> closed_ref (normalize_text (Some x)) \<longrightarrow>
      normalize_text (Some (normalize_text (Some x))) = normalize_text (Some x)"
    using normalize_text_idem [of x] by blast
  have c: "LF \<notin> set x \<longrightarrow> \<not> closed_ref (normalize_text (Some x))"
    using normalize_text_open [of x] by blast
  have d: "\<forall>c\<in>set (normalize_text v). is_space c \<longrightarrow> c = SP"
    using spaced_ok_spaces [OF p(1)] by blast
  have e: "\<forall>i. Suc i < length (normalize_text v) \<longrightarrow>
      \<not> (normalize_text v ! i = SP \<and> normalize_text v ! Suc i = SP)"
    using spaced_ok_adjacent [OF p(1)] by blast
  have f: "NBSP \<notin> set (normalize_text v)"
    using d by (auto simp: special_chars)
  have g: "DAGGER \<notin> set (normalize_text v)" "DDAGGER \<notin> set (normalize_text v)" "STAR \<notin> set (normalize_text v)"
    using p(3) by (auto simp: is_footnote_glyph_def)
  have h: "normalize_text None = []" by (simp add: normalize_text_def)
  show ?thesis
    using a b c d e f g h p(2) normalize_example by blast
qed

theorem normalize_idempotent_without_lf_witness:
  "LF \<notin> set (ascii ''United States[1]'' @ [NBSP, DAGGER]) \<and>
   normalize_text (Some (ascii ''United States[1]'' @ [NBSP, DAGGER])) = ascii ''United States'' \<and>
   normalize_text (Some (normalize_text (Some (ascii ''United States[1]'' @ [NBSP, DAGGER])))) =
     ascii ''United States'' \<and>
   \<not> closed_ref (ascii ''United States'') \<and> trimmed (ascii ''United States'') \<and>
   normalize_text (Some [LBRACK, LF, RBRACK]) = [LBRACK, SP, RBRACK] \<and>
   closed_ref [LBRACK, SP, RBRACK]"
proof -
  have lf: "LF \<notin> set (ascii ''United States[1]'' @ [NBSP, DAGGER])"
    by (simp add: ascii_def LF_def NBSP_def DAGGER_def)
  have cr: "closed_ref [LBRACK, SP, RBRACK]" by simp
  show ?thesis
    using normalize_idempotent_without_lf [of "ascii ''United States[1]'' @ [NBSP, DAGGER]"
        "Some (ascii ''United States[1]'' @ [NBSP, DAGGER])"] lf cr
    by (simp add: normalize_example normalize_lf_example)
qed

section \<open>The digit limit of \<open>int\<close>\<close>

lemma digit_plain:
  "is_digit c \<Longrightarrow> \<not> is_space c \<and> \<not> is_footnote_glyph c \<and> c \<noteq> LBRACK \<and> c \<noteq> RBRACK"
  by (auto simp: is_digit_def is_space_def is_footnote_glyph_def LBRACK_def RBRACK_def
      DAGGER_def DDAGGER_def STAR_def)

lemma no_lbrack_open: "LBRACK \<notin> set s \<Longrightarrow> \<not> closed_ref s"
  by (induction s) auto

lemma no_space_spaced_ok: "\<forall>c\<in>set s. \<not> is_space c \<Longrightarrow> spaced_ok s"
  by (induction s rule: spaced_ok.induct) auto

lemma no_space_trimmed: "\<forall>c\<in>set s. \<not> is_space c \<Longrightarrow> trimmed s"
  by (cases s) (auto simp: trimmed_def)

lemma normalize_text_digits:
  assumes "\<forall>c\<in>set ds. is_digit c"
  shows "normalize_text (Some ds) = ds"
proof (rule normalize_text_fixed)
  from assms have "LBRACK \<notin> set ds" using digit_plain by blast
  then show "\<not> closed_ref ds" by (rule no_lbrack_open)
  from assms have s: "\<forall>c\<in>set ds. \<not> is_space c" using digit_plain by blast
  from s show "spaced_ok ds" by (rule no_space_spaced_ok)
  from s show "trimmed ds" by (rule no_space_trimmed)
  from assms show "\<forall>c\<in>set ds. \<not> is_footnote_glyph c" using digit_plain by blast
qed

lemma to_int_digits:
  assumes "\<forall>c\<in>set ds. is_digit c" and "ds \<noteq> []"
  shows "to_int (Some ds) = int_of_str ds"
proof -
  have "filter is_digit ds = ds" using assms(1) by (simp add: filter_id_conv)
  then show ?thesis
    using assms(2) by (simp add: to_int_def Let_def normalize_text_digits [OF assms(1)])
qed

lemma long_digits_facts:
  "length long_digits = 4301" "set long_digits = {49}" "long_digits \<noteq> []"
  "\<forall>c\<in>set long_digits. is_digit c" "MAX_STR_DIGITS < length long_digits"
proof -
  show "length long_digits = 4301" by (simp add: long_digits_def MAX_STR_DIGITS_def)
  show s: "set long_digits = {49}" unfolding long_digits_def by (rule set_replicate) simp
  show "long_digits \<noteq> []" by (simp add: long_digits_def)
  show "\<forall>c\<in>set long_digits. is_digit c" by (simp add: s is_digit_def)
  show "MAX_STR_DIGITS < length long_digits" by (simp add: long_digits_def)
qed

lemma to_int_long: "to_int (Some long_digits) = Inl ValueError"
  by (simp add: to_int_digits [OF long_digits_facts(4) long_digits_facts(3)] int_of_str_def
      long_digits_facts(5))

lemma parse_medal_table_nonneg:
  assumes "parse_medal_table u fuzzy df n2c c2n = Inr (rows, um)" and "r \<in> set rows"
  shows "0 \<le> gold r \<and> 0 \<le> silver r \<and> 0 \<le> bronze r \<and> 0 \<le> total r"
proof -
  from assms obtain row where p: "parse_row u fuzzy (cols df) n2c c2n row = Parsed r"
    unfolding parse_medal_table_rows [OF assms(1)] by blast
  note f = parse_row_fields [OF p]
  have g: "0 \<le> gold r" and s: "0 \<le> silver r" and b: "0 \<le> bronze r"
    using f(1) f(2) f(3) to_int_nonneg by blast+
  from f(4) obtain t where t: "to_int (row_get row (total_col (cols df))) = Inr t"
    "total r = (if t = 0 then gold r + silver r + bronze r else t)" by blast
  have "0 \<le> t" using t(1) by (rule to_int_nonneg)
  then have "0 \<le> total r" using g s b t(2) by simp
  with g s b show ?thesis by simp
qed

text \<open>
  C8, as the code has it. \<open>int\<close> refuses a string of more than 4300 digits, so a cell
  that leaves 4301 digits makes \<open>to_int\<close> raise \<open>ValueError\<close>: the cell of 4301
  times the digit 1 does.
\<close>

theorem to_int_raises_on_long_cell:
  "length long_digits = 4301 \<and> set long_digits = {49} \<and> to_int (Some long_digits) = Inl ValueError"
  by (simp add: long_digits_facts(1,2) to_int_long)

text \<open>
  C8, amended. \<open>to_int\<close> returns exactly on the cells (\<open>None\<close>, empty or malformed
  text) that leave at most 4300 digits after the non-digits are removed, and raises
  \<open>ValueError\<close> on the others. The value returned is 0 when no digit is left, the
  decimal value of the digits otherwise, and it is never negative; so when the table
  parse returns, gold, silver, bronze and total are non-negative in every row.
\<close>

theorem to_int_within_limit:
  "(digits_ok v \<longleftrightarrow> (\<exists>k. to_int v = Inr k)) \<and>
   (\<not> digits_ok v \<longleftrightarrow> to_int v = Inl ValueError) \<and>
   (filter is_digit (normalize_text v) = [] \<longrightarrow> to_int v = Inr 0) \<and>
   (filter is_digit (normalize_text v) \<noteq> [] \<and> digits_ok v \<longrightarrow>
      to_int v = Inr (int_of_digits (filter is_digit (normalize_text v)))) \<and>
   (to_int v = Inr n \<longrightarrow> 0 \<le> n) \<and>
   (parse_medal_table u fuzzy df n2c c2n = Inr (rows, um) \<longrightarrow>
      (\<forall>r \<in> set rows. 0 \<le> gold r \<and> 0 \<le> silver r \<and> 0 \<le> bronze r \<and> 0 \<le> total r))"
proof -
  have a: "digits_ok v \<longleftrightarrow> (\<exists>k. to_int v = Inr k)"
    by (auto simp: to_int_cases digits_ok_def)
  have b: "\<not> digits_ok v \<longleftrightarrow> to_int v = Inl ValueError"
    by (simp add: to_int_raises)
  have c: "filter is_digit (normalize_text v) \<noteq> [] \<and> digits_ok v \<longrightarrow>
      to_int v = Inr (int_of_digits (filter is_digit (normalize_text v)))"
    by (simp add: to_int_ok)
  show ?thesis
    using a b c to_int_no_digits [of v] to_int_nonneg [of v n]
      parse_medal_table_nonneg [of u fuzzy df n2c c2n rows um]
    by blast
qed

theorem to_int_within_limit_witness:
  "digits_ok (Some (ascii ''n/a'')) \<and> to_int (Some (ascii ''n/a'')) = Inr 0 \<and>
   filter is_digit (normalize_text (Some (ascii ''n/a''))) = [] \<and>
   to_int None = Inr 0 \<and> to_int (Some (ascii ''-7'')) = Inr 7 \<and>
   to_int (Some (ascii ''1,234[b]'')) = Inr 1234 \<and>
   digits_ok (Some (ascii ''1,234[b]'')) \<and>
   filter is_digit (normalize_text (Some (ascii ''1,234[b]''))) = ascii ''1234'' \<and>
   int_of_digits (ascii ''1234'') = 1234 \<and>
   \<not> digits_ok (Some long_digits) \<and> to_int (Some long_digits) = Inl ValueError \<and>
   parse_medal_table latin1_ucd no_fuzzy ex_table Map.empty Map.empty =
     Inr ([\<lparr> rank = None, country = ascii ''A'', noc = ascii ''AAA'', iso2 = None, flag_url = None,
             gold = 1, silver = 1, bronze = 0, total = 2, is_eu = None \<rparr>], [])"
proof -
  have e: "filter is_digit (normalize_text (Some (ascii ''n/a''))) = []"
    "filter is_digit (normalize_text (Some (ascii ''1,234[b]''))) = ascii ''1234''"
    by (simp_all add: is_digit_def norm_eval)
  have d: "int_of_digits (ascii ''1234'') = 1234"
    by (simp add: int_of_digits_def ascii_def)
  note a = to_int_within_limit [of "Some (ascii ''n/a'')" 0 latin1_ucd no_fuzzy ex_table Map.empty Map.empty
      "[\<lparr> rank = None, country = ascii ''A'', noc = ascii ''AAA'', iso2 = None, flag_url = None,
             gold = 1, silver = 1, bronze = 0, total = 2, is_eu = None \<rparr>]" "[]"]
  note b = to_int_within_limit [of "Some (ascii ''1,234[b]'')" 1234 latin1_ucd no_fuzzy ex_table Map.empty Map.empty
      "[]" "[]"]
  note c = to_int_within_limit [of "Some long_digits" 0 latin1_ucd no_fuzzy ex_table Map.empty Map.empty
      "[]" "[]"]
  show ?thesis
    using a b c by (simp add: to_int_values to_int_long ex_table_parse e d)
qed

section \<open>Rows without a country code\<close>

























section \<open>Name keys of strings that differ in case or diacritics\<close>




























end
